theory Spec2Isabelle
  imports Complex_Main
begin

section \<open>The genetic algorithm of core.py\<close>

text \<open>
  A shallow embedding of class \<open>GeneticAlgorithm\<close> (src/genetic_algorithm/core.py).
  Python ints are \<open>int\<close>; the four fractions of the constructor are Python floats, that is
  IEEE 754 binary64 values with their rounding, infinities and NaN. Every raise of the source
  and of the Python and numpy operations it calls is a value \<open>Inl e\<close>. The numpy random
  stream is an explicit list of raw draws that is threaded through the object state; a draw
  from an exhausted list is \<open>0\<close>.
\<close>

subsection \<open>Errors and the random stream\<close>

datatype error =
  AssertionError | ValueError | OverflowError | IndexError | TypeError | InvalidStopCond

type_synonym rng = "nat list"

fun draw :: "rng \<Rightarrow> nat \<times> rng" where
  "draw [] = (0, [])"
| "draw (r # g) = (r, g)"

text \<open>
  \<open>np.random.choice(a, size=k, replace=False)\<close> returns \<open>k\<close> entries of \<open>a\<close> at pairwise
  different positions. \<open>pick\<close> takes them one after the other, each at a drawn position of
  what is left.
\<close>

fun pick :: "'a list \<Rightarrow> nat \<Rightarrow> rng \<Rightarrow> 'a list \<times> rng" where
  "pick xs 0 g = ([], g)"
| "pick xs (Suc k) g =
     (case draw g of (r, g') \<Rightarrow>
        let i = r mod length xs in
        (case pick (take i xs @ drop (Suc i) xs) k g' of
           (ys, g'') \<Rightarrow> (xs ! i # ys, g'')))"

text \<open>
  The checks of numpy's \<open>choice\<close> with \<open>replace=False\<close>: an empty \<open>a\<close> is refused unless no
  sample is taken, a sample larger than \<open>a\<close> is refused, a negative size is refused.
\<close>

definition choice :: "'a list \<Rightarrow> int \<Rightarrow> rng \<Rightarrow> error + ('a list \<times> rng)" where
  "choice a sz g =
     (if a = [] \<and> sz \<noteq> 0 then Inl ValueError
      else if int (length a) < sz then Inl ValueError
      else if sz < 0 then Inl ValueError
      else Inr (pick a (nat sz) g))"

text \<open>
  \<open>np.random.choice(a)\<close> with no size returns one entry of \<open>a\<close>; the model returns its
  position, since the caller mutates the chosen object in place.
\<close>

definition choice1 :: "'a list \<Rightarrow> rng \<Rightarrow> error + (nat \<times> rng)" where
  "choice1 a g =
     (if a = [] then Inl ValueError
      else (case draw g of (r, g') \<Rightarrow> Inr (r mod length a, g')))"

subsection \<open>Python floats\<close>

text \<open>
  A float is a finite binary64 number, an infinity or NaN. The sign of a zero is left out:
  the constructor adds, multiplies, compares and floors its fractions, and none of these
  tells \<open>-0.0\<close> from \<open>0.0\<close> in the integer or the truth value that comes out.
\<close>

datatype pyfloat = Fin real | PInf | NInf | NaN

text \<open>
  The binary exponent \<open>e\<close> of a positive number \<open>a\<close>, with the power \<open>2 ^ e\<close>:
  \<open>2 ^ e \<le> a < 2 ^ (e + 1)\<close>, except that \<open>e\<close> is not taken below \<open>-1022\<close> (the
  exponent of the subnormal numbers) nor above \<open>1024\<close> (where every number overflows).
\<close>

fun expUp :: "nat \<Rightarrow> real \<Rightarrow> int \<times> real \<Rightarrow> int \<times> real" where
  "expUp 0 a (e, p) = (e, p)"
| "expUp (Suc k) a (e, p) = (if 2 * p \<le> a then expUp k a (e + 1, 2 * p) else (e, p))"

fun expDown :: "nat \<Rightarrow> real \<Rightarrow> int \<times> real \<Rightarrow> int \<times> real" where
  "expDown 0 a (e, p) = (e, p)"
| "expDown (Suc k) a (e, p) = (if a < p then expDown k a (e - 1, p / 2) else (e, p))"

definition exponent :: "real \<Rightarrow> int \<times> real" where
  "exponent a = (if 1 \<le> a then expUp 1024 a (0, 1) else expDown 1022 a (0, 1))"

definition roundHalfEven :: "real \<Rightarrow> int" where
  "roundHalfEven x =
     (let n = \<lfloor>x\<rfloor>; d = x - of_int n
      in if d < 1/2 then n else if 1/2 < d then n + 1 else if even n then n else n + 1)"

text \<open>
  Rounding of a real result to binary64, to nearest with ties to even: the result is a
  multiple of \<open>2 ^ (e - 52)\<close> (\<open>4503599627370496\<close> is \<open>2 ^ 52\<close>), and it overflows to an
  infinity when it reaches \<open>2 ^ 1024\<close> (\<open>9007199254740992\<close> is \<open>2 ^ 53\<close>).
\<close>

definition rnd :: "real \<Rightarrow> pyfloat" where
  "rnd x =
     (if x = 0 then Fin 0
      else
        (case exponent \<bar>x\<bar> of (e, p) \<Rightarrow>
           let q = p / 4503599627370496;
               m = roundHalfEven (x / q)
           in if 1024 \<le> e \<or> (e = 1023 \<and> 9007199254740992 \<le> \<bar>m\<bar>)
              then (if 0 < x then PInf else NInf)
              else Fin (of_int m * q)))"

text \<open>Float addition and multiplication.\<close>

fun fadd :: "pyfloat \<Rightarrow> pyfloat \<Rightarrow> pyfloat" where
  "fadd (Fin a) (Fin b) = rnd (a + b)"
| "fadd NaN y = NaN"
| "fadd x NaN = NaN"
| "fadd PInf NInf = NaN"
| "fadd NInf PInf = NaN"
| "fadd PInf y = PInf"
| "fadd x PInf = PInf"
| "fadd NInf y = NInf"
| "fadd x NInf = NInf"

fun fmul :: "pyfloat \<Rightarrow> pyfloat \<Rightarrow> pyfloat" where
  "fmul (Fin a) (Fin b) = rnd (a * b)"
| "fmul NaN y = NaN"
| "fmul x NaN = NaN"
| "fmul (Fin a) PInf = (if a = 0 then NaN else if 0 < a then PInf else NInf)"
| "fmul (Fin a) NInf = (if a = 0 then NaN else if 0 < a then NInf else PInf)"
| "fmul PInf (Fin b) = (if b = 0 then NaN else if 0 < b then PInf else NInf)"
| "fmul NInf (Fin b) = (if b = 0 then NaN else if 0 < b then NInf else PInf)"
| "fmul PInf PInf = PInf"
| "fmul PInf NInf = NInf"
| "fmul NInf PInf = NInf"
| "fmul NInf NInf = PInf"

text \<open>
  The comparisons of a float with a Python int, which are exact; every comparison with NaN
  is false.
\<close>

definition fleInt :: "pyfloat \<Rightarrow> int \<Rightarrow> bool" where
  "fleInt x n =
     (case x of Fin a \<Rightarrow> a \<le> of_int n | PInf \<Rightarrow> False | NInf \<Rightarrow> True | NaN \<Rightarrow> False)"

definition fgtInt :: "pyfloat \<Rightarrow> int \<Rightarrow> bool" where
  "fgtInt x n =
     (case x of Fin a \<Rightarrow> of_int n < a | PInf \<Rightarrow> True | NInf \<Rightarrow> False | NaN \<Rightarrow> False)"

text \<open>
  The conversion of the int operand of a mixed product, which raises \<open>OverflowError\<close> for
  an int beyond the range of the floats.
\<close>

definition floatOfInt :: "int \<Rightarrow> error + pyfloat" where
  "floatOfInt n = (case rnd (of_int n) of Fin a \<Rightarrow> Inr (Fin a) | _ \<Rightarrow> Inl OverflowError)"

text \<open>
  \<open>int(np.floor(x))\<close>: the floor of NaN or of an infinity is itself, and \<open>int\<close> raises
  \<open>ValueError\<close> for NaN and \<open>OverflowError\<close> for an infinity.
\<close>

definition intOfFloor :: "pyfloat \<Rightarrow> error + int" where
  "intOfFloor x =
     (case x of Fin a \<Rightarrow> Inr \<lfloor>a\<rfloor> | NaN \<Rightarrow> Inl ValueError | _ \<Rightarrow> Inl OverflowError)"

text \<open>The expression \<open>int(np.floor(frac * self.popSize))\<close> of lines 54 to 57.\<close>

definition countOf :: "pyfloat \<Rightarrow> int \<Rightarrow> error + int" where
  "countOf x n =
     (case floatOfInt n of Inl e \<Rightarrow> Inl e | Inr f \<Rightarrow> intOfFloor (fmul x f))"

subsection \<open>Candidates, the model maker and the model scorer\<close>

text \<open>
  A candidate is a Python object: \<open>ident\<close> is its identity (what \<open>in\<close> and \<open>==\<close> compare for
  an object without \<open>__eq__\<close>), \<open>payload\<close> its hyperparameters, \<open>fitness\<close> its attribute of that
  name (\<open>None\<close> until scored). A fitness value is only ever compared with another one;
  it is a real number here (a scorer that returns NaN is outside the model).
\<close>

record 'p candidate =
  ident :: nat
  payload :: 'p
  fitness :: "real option"

text \<open>
  Modelled from the spec: classes \<open>ModelMaker\<close> and \<open>ModelScorer\<close> are imported from
  \<open>genetic_algorithm.utils\<close>, which is not among the sources (core.py only holds a
  commented-out draft). By section 6 of the specification \<open>makeRandomModel\<close> and
  \<open>makeChildModel\<close> return a new candidate with unset fitness and do not change their
  arguments, \<open>mutateModel\<close> changes the configuration of its argument in place and leaves its
  fitness alone, and \<open>scoreModel\<close> is a pure function of the candidate. The maker draws from
  the shared random stream, so each operation takes and returns it. The engine model gives
  each new candidate the next unused identity.
\<close>

record 'p modelMaker =
  makeRandomModel :: "rng \<Rightarrow> 'p \<times> rng"
  makeChildModel :: "'p candidate \<Rightarrow> 'p candidate \<Rightarrow> rng \<Rightarrow> 'p \<times> rng"
  mutateModel :: "'p candidate \<Rightarrow> rng \<Rightarrow> 'p \<times> rng"

type_synonym 'p modelScorer = "'p candidate \<Rightarrow> real"

subsection \<open>The object state\<close>

text \<open>
  The attributes of a \<open>GeneticAlgorithm\<close> object, and three components of the environment:
  \<open>rngState\<close> is the state of \<open>np.random\<close>, \<open>nextId\<close> the next unused object identity, and
  \<open>scoreCalls\<close> records the identity of every candidate handed to \<open>scoreModel\<close>, in order.
  Attribute \<open>graveyard\<close> only exists when \<open>keepGraveyard\<close> is set; otherwise the field stays
  empty.
\<close>

record 'p ga =
  popSize :: int
  keepTopFrac :: pyfloat
  keepBtmFrac :: pyfloat
  makeChildFrac :: pyfloat
  mutateFrac :: pyfloat
  keepGraveyard :: bool
  randomState :: "int option"
  keepTopN :: int
  keepBtmN :: int
  makeChildN :: int
  mutateN :: int
  graveyard :: "'p candidate list"
  population :: "'p candidate list"
  bestModel :: "'p candidate option"
  rngState :: rng
  nextId :: nat
  scoreCalls :: "nat list"

subsection \<open>Construction\<close>

text \<open>
  \<open>__init__\<close>. \<open>seed\<close> is the stream that \<open>np.random.seed\<close> installs for a seed (numpy accepts
  seeds from \<open>0\<close> to \<open>2^32 - 1\<close>), \<open>g0\<close> the state of \<open>np.random\<close> before the call.
\<close>

definition GeneticAlgorithm_init ::
  "int \<Rightarrow> pyfloat \<Rightarrow> pyfloat \<Rightarrow> pyfloat \<Rightarrow> pyfloat \<Rightarrow> bool \<Rightarrow> int option
   \<Rightarrow> (nat \<Rightarrow> rng) \<Rightarrow> rng \<Rightarrow> error + 'p ga" where
  "GeneticAlgorithm_init popSize' keepTopFrac' keepBtmFrac' makeChildFrac' mutateFrac'
       keepGraveyard' randomState' seed g0 =
     (if \<not> fleInt (fadd (fadd keepTopFrac' keepBtmFrac') makeChildFrac') 1
      then Inl AssertionError
      else
        (case countOf keepTopFrac' popSize' of Inl e \<Rightarrow> Inl e | Inr keepTopN' \<Rightarrow>
        (case countOf keepBtmFrac' popSize' of Inl e \<Rightarrow> Inl e | Inr keepBtmN' \<Rightarrow>
        (case countOf makeChildFrac' popSize' of Inl e \<Rightarrow> Inl e | Inr makeChildN' \<Rightarrow>
        (case countOf mutateFrac' popSize' of Inl e \<Rightarrow> Inl e | Inr mutateN' \<Rightarrow>
          let self = \<lparr> popSize = popSize',
                       keepTopFrac = keepTopFrac',
                       keepBtmFrac = keepBtmFrac',
                       makeChildFrac = makeChildFrac',
                       mutateFrac = mutateFrac',
                       keepGraveyard = keepGraveyard',
                       randomState = randomState',
                       keepTopN = keepTopN',
                       keepBtmN = keepBtmN',
                       makeChildN = makeChildN',
                       mutateN = mutateN',
                       graveyard = [],
                       population = [],
                       bestModel = None,
                       rngState = g0,
                       nextId = 0,
                       scoreCalls = [] \<rparr>
          in (case randomState' of
                None \<Rightarrow> Inr self
              | Some sd \<Rightarrow>
                  if 0 \<le> sd \<and> sd < 2 ^ 32 then Inr (self\<lparr>rngState := seed (nat sd)\<rparr>)
                  else Inl ValueError))))))"

subsection \<open>Initialisation and scoring\<close>

text \<open>The comprehension \<open>[makeRandomModel() for m in range(n)]\<close>.\<close>

fun makeRandomModels ::
  "'p modelMaker \<Rightarrow> nat \<Rightarrow> rng \<Rightarrow> nat \<Rightarrow> 'p candidate list \<times> rng \<times> nat" where
  "makeRandomModels mk 0 g n = ([], g, n)"
| "makeRandomModels mk (Suc k) g n =
     (case makeRandomModel mk g of (p, g') \<Rightarrow>
        (case makeRandomModels mk k g' (Suc n) of (ms, g'', n') \<Rightarrow>
           (\<lparr>ident = n, payload = p, fitness = None\<rparr> # ms, g'', n')))"

definition initializePop :: "'p modelMaker \<Rightarrow> 'p ga \<Rightarrow> error + 'p ga" where
  "initializePop mk self =
     (if length (population self) \<noteq> 0 then Inl AssertionError
      else (case makeRandomModels mk (nat (popSize self)) (rngState self) (nextId self) of
              (ms, g, n) \<Rightarrow> Inr (self\<lparr>population := ms, rngState := g, nextId := n\<rparr>)))"

text \<open>
  The loop of \<open>_scoreModelsInPop\<close> over the positions of the population: the new population
  and the identities handed to \<open>scoreModel\<close>, in order.
\<close>

fun scoreEach :: "'p modelScorer \<Rightarrow> 'p candidate list \<Rightarrow> 'p candidate list \<times> nat list" where
  "scoreEach sc [] = ([], [])"
| "scoreEach sc (m # ms) =
     (case scoreEach sc ms of (ms', calls) \<Rightarrow>
        if fitness m = None then (m\<lparr>fitness := Some (sc m)\<rparr> # ms', ident m # calls)
        else (m # ms', calls))"

definition scoreModelsInPop :: "'p modelScorer \<Rightarrow> 'p ga \<Rightarrow> 'p ga" where
  "scoreModelsInPop sc self =
     (case scoreEach sc (population self) of
        (ms, calls) \<Rightarrow> self\<lparr>population := ms, scoreCalls := scoreCalls self @ calls\<rparr>)"

subsection \<open>Sorting and the best model\<close>

definition fitnessKey :: "'p candidate \<Rightarrow> real" where
  "fitnessKey m = (case fitness m of None \<Rightarrow> 0 | Some f \<Rightarrow> f)"

text \<open>
  \<open>list.sort(key=..., reverse=True)\<close> is stable: candidates of equal fitness keep their
  order. It compares the keys, and comparing \<open>None\<close> raises \<open>TypeError\<close>; a list of fewer than
  two entries is not compared at all.
\<close>

definition sortPopByFitness :: "'p ga \<Rightarrow> error + 'p ga" where
  "sortPopByFitness self =
     (if 2 \<le> length (population self) \<and> list_ex (\<lambda>m. fitness m = None) (population self)
      then Inl TypeError
      else Inr (self\<lparr>population := sort_key (\<lambda>m. - fitnessKey m) (population self)\<rparr>))"

definition getBestModel :: "'p ga \<Rightarrow> error + ('p candidate \<times> 'p ga)" where
  "getBestModel self =
     (case sortPopByFitness self of
        Inl e \<Rightarrow> Inl e
      | Inr self' \<Rightarrow>
          (case population self' of
             [] \<Rightarrow> Inl IndexError
           | m # _ \<Rightarrow> Inr (m, self')))"

subsection \<open>Culling\<close>

text \<open>The local variables of \<open>_killUnfit\<close>, over the sorted population.\<close>

definition topKeepInds :: "'p ga \<Rightarrow> nat list" where
  "topKeepInds self = [0 ..< nat (keepTopN self)]"

definition remainingInds :: "'p ga \<Rightarrow> nat list" where
  "remainingInds self =
     filter (\<lambda>i. i \<notin> set (topKeepInds self)) [0 ..< length (population self)]"

definition btmKeepInds :: "'p ga \<Rightarrow> error + (nat list \<times> rng)" where
  "btmKeepInds self = choice (remainingInds self) (keepBtmN self) (rngState self)"

definition killUnfit :: "'p ga \<Rightarrow> error + 'p ga" where
  "killUnfit self0 =
     (case sortPopByFitness self0 of
        Inl e \<Rightarrow> Inl e
      | Inr self \<Rightarrow>
          if \<not> list_all (\<lambda>i. i < length (population self)) (topKeepInds self)
          then Inl IndexError
          else
            let topKeepMods = map (\<lambda>i. population self ! i) (topKeepInds self) in
            (case btmKeepInds self of
               Inl e \<Rightarrow> Inl e
             | Inr (btm, g) \<Rightarrow>
                 let btmKeepMods = map (\<lambda>i. population self ! i) btm in
                 if set (topKeepInds self) \<inter> set btm \<noteq> {} then Inl AssertionError
                 else
                   let keepMods = topKeepMods @ btmKeepMods;
                       unfitMods = filter (\<lambda>m. ident m \<notin> set (map ident keepMods))
                                     (population self)
                   in Inr (self\<lparr>population := keepMods,
                                 graveyard := (if keepGraveyard self
                                               then graveyard self @ unfitMods
                                               else graveyard self),
                                 rngState := g\<rparr>)))"

subsection \<open>Breeding and refill\<close>

text \<open>
  The loop of \<open>_makeChildren\<close>: \<open>k\<close> further children from population \<open>pop\<close>, each from two
  parents drawn without replacement.
\<close>

fun breed ::
  "'p modelMaker \<Rightarrow> 'p candidate list \<Rightarrow> nat \<Rightarrow> rng \<Rightarrow> nat
   \<Rightarrow> error + ('p candidate list \<times> rng \<times> nat)" where
  "breed mk pop 0 g n = Inr ([], g, n)"
| "breed mk pop (Suc k) g n =
     (case choice pop 2 g of
        Inl e \<Rightarrow> Inl e
      | Inr (parents, g1) \<Rightarrow>
          (case makeChildModel mk (parents ! 0) (parents ! 1) g1 of (p, g2) \<Rightarrow>
             (case breed mk pop k g2 (Suc n) of
                Inl e \<Rightarrow> Inl e
              | Inr (cs, g3, n') \<Rightarrow>
                  Inr (\<lparr>ident = n, payload = p, fitness = None\<rparr> # cs, g3, n'))))"

definition makeChildren :: "'p modelMaker \<Rightarrow> 'p ga \<Rightarrow> error + 'p ga" where
  "makeChildren mk self =
     (case breed mk (population self) (nat (makeChildN self)) (rngState self) (nextId self) of
        Inl e \<Rightarrow> Inl e
      | Inr (children, g, n) \<Rightarrow>
          (case choice1 children g of
             Inl e \<Rightarrow> Inl e
           | Inr (j, g') \<Rightarrow>
               (case mutateModel mk (children ! j) g' of (p, g'') \<Rightarrow>
                  Inr (self\<lparr>population :=
                              population self @ children[j := (children ! j)\<lparr>payload := p\<rparr>],
                            rngState := g'',
                            nextId := n\<rparr>))))"

text \<open>The \<open>while\<close> loop of \<open>_makeRemainingRandomModels\<close>.\<close>

function refill ::
  "'p modelMaker \<Rightarrow> int \<Rightarrow> 'p candidate list \<Rightarrow> rng \<Rightarrow> nat
   \<Rightarrow> 'p candidate list \<times> rng \<times> nat" where
  "refill mk target pop g n =
     (if int (length pop) < target
      then (case makeRandomModel mk g of (p, g') \<Rightarrow>
              refill mk target (pop @ [\<lparr>ident = n, payload = p, fitness = None\<rparr>]) g' (Suc n))
      else (pop, g, n))"
  by pat_completeness auto
termination
  by (relation "measure (\<lambda>(mk, target, pop, g, n). nat (target - int (length pop)))") auto

definition makeRemainingRandomModels :: "'p modelMaker \<Rightarrow> 'p ga \<Rightarrow> 'p ga" where
  "makeRemainingRandomModels mk self =
     (case refill mk (popSize self) (population self) (rngState self) (nextId self) of
        (pop, g, n) \<Rightarrow> self\<lparr>population := pop, rngState := g, nextId := n\<rparr>)"

subsection \<open>The generational loop\<close>

text \<open>
  The first half of the body of the \<open>while\<close> loop of \<open>evolve\<close>, on the object and the two
  counters \<open>iters\<close> and \<open>itersNoImprov\<close>: scoring, the best model of the generation, and its
  comparison with the remembered one. Printing is left out. The comparison of two fitness
  values raises \<open>TypeError\<close> when one of them is \<open>None\<close>.
\<close>

definition trackBest ::
  "'p modelScorer \<Rightarrow> 'p ga \<times> int \<times> int \<Rightarrow> error + ('p ga \<times> int \<times> int)" where
  "trackBest sc st =
     (case st of (self0, iters, itersNoImprov) \<Rightarrow>
        (case getBestModel (scoreModelsInPop sc self0) of
           Inl e \<Rightarrow> Inl e
         | Inr (best, self1) \<Rightarrow>
             (case (case bestModel self1 of
                      None \<Rightarrow> Inr True
                    | Some old \<Rightarrow>
                        (case (fitness best, fitness old) of
                           (Some x, Some y) \<Rightarrow> Inr (x > y)
                         | _ \<Rightarrow> Inl TypeError)) of
                Inl e \<Rightarrow> Inl e
              | Inr improved \<Rightarrow>
                  Inr (if improved then self1\<lparr>bestModel := Some best\<rparr> else self1,
                       iters + 1,
                       if improved then 0 else itersNoImprov + 1))))"

text \<open>The whole body: best-tracking, culling, breeding, refill.\<close>

definition generation ::
  "'p modelMaker \<Rightarrow> 'p modelScorer \<Rightarrow> 'p ga \<times> int \<times> int \<Rightarrow> error + ('p ga \<times> int \<times> int)" where
  "generation mk sc st =
     (case trackBest sc st of
        Inl e \<Rightarrow> Inl e
      | Inr (self2, iters', itersNoImprov') \<Rightarrow>
          (case killUnfit self2 of
             Inl e \<Rightarrow> Inl e
           | Inr self3 \<Rightarrow>
               (case makeChildren mk self3 of
                  Inl e \<Rightarrow> Inl e
                | Inr self4 \<Rightarrow>
                    Inr (makeRemainingRandomModels mk self4, iters', itersNoImprov'))))"

text \<open>
  The flag \<open>stopCond\<close> as \<open>evolve\<close> computes it before the loop, from \<open>iters = 0\<close> and
  \<open>itersNoImprov = 0\<close>. The first test of the source reads \<open>itersNoImprov is not None\<close>, which
  holds of the integer \<open>0\<close>; so the two \<open>elif\<close> branches and the final \<open>raise\<close> are only
  reached when \<open>maxIters\<close> is \<open>None\<close>. An integer never equals \<open>None\<close>.
\<close>

definition stopCondOf :: "int \<Rightarrow> int \<Rightarrow> int option \<Rightarrow> int option \<Rightarrow> error + bool" where
  "stopCondOf iters itersNoImprov maxIters maxItersNoImprov =
     (if maxIters \<noteq> None \<and> True
      then Inr (Some iters = maxIters \<or> Some itersNoImprov = maxItersNoImprov)
      else if maxIters \<noteq> None then Inr (Some iters = maxIters)
      else if True then Inr (Some itersNoImprov = maxItersNoImprov)
      else Inl InvalidStopCond)"

text \<open>
  \<open>while not stopCond: ...\<close>. The body never assigns \<open>stopCond\<close>, so the flag is a parameter
  that every iteration passes on unchanged. The loop need not end: \<open>None\<close> is a run that does
  not return.
\<close>

partial_function (option) evolveLoop ::
  "'p modelMaker \<Rightarrow> 'p modelScorer \<Rightarrow> bool \<Rightarrow> 'p ga \<times> int \<times> int
   \<Rightarrow> (error + ('p ga \<times> int \<times> int)) option" where
  "evolveLoop mk sc stopCond st =
     (if \<not> stopCond
      then (case generation mk sc st of
              Inl e \<Rightarrow> Some (Inl e)
            | Inr st' \<Rightarrow> evolveLoop mk sc stopCond st')
      else Some (Inr st))"

definition evolve ::
  "'p modelMaker \<Rightarrow> 'p modelScorer \<Rightarrow> int option \<Rightarrow> int option \<Rightarrow> 'p ga
   \<Rightarrow> (error + ('p ga \<times> int \<times> int)) option" where
  "evolve mk sc maxIters maxItersNoImprov self =
     (if \<not> (maxIters \<noteq> None \<or> maxItersNoImprov \<noteq> None) then Some (Inl AssertionError)
      else
        (case (if length (population self) = 0 then initializePop mk self else Inr self) of
           Inl e \<Rightarrow> Some (Inl e)
         | Inr self' \<Rightarrow>
             (case stopCondOf 0 0 maxIters maxItersNoImprov of
                Inl e \<Rightarrow> Some (Inl e)
              | Inr stopCond \<Rightarrow> evolveLoop mk sc stopCond (self', 0, 0))))"

text \<open>The first \<open>n\<close> passes through the loop body, whatever the loop condition.\<close>

fun generations ::
  "'p modelMaker \<Rightarrow> 'p modelScorer \<Rightarrow> nat \<Rightarrow> 'p ga \<times> int \<times> int
   \<Rightarrow> error + ('p ga \<times> int \<times> int)" where
  "generations mk sc 0 st = Inr st"
| "generations mk sc (Suc n) st =
     (case generations mk sc n st of
        Inl e \<Rightarrow> Inl e
      | Inr st' \<Rightarrow> generation mk sc st')"

subsection \<open>Properties of states and runs\<close>

text \<open>
  The states that a run passes through: the members of the population are different
  objects, every identity in use is below \<open>nextId\<close>, no candidate was handed to the scorer
  twice, and a candidate without fitness was never handed to it.
\<close>

definition wellFormed :: "'p ga \<Rightarrow> bool" where
  "wellFormed self =
     (distinct (map ident (population self))
      \<and> list_all (\<lambda>m. ident m < nextId self) (population self)
      \<and> distinct (scoreCalls self)
      \<and> list_all (\<lambda>i. i < nextId self) (scoreCalls self)
      \<and> list_all (\<lambda>m. fitness m = None \<longrightarrow> ident m \<notin> set (scoreCalls self)) (population self))"

text \<open>
  A configuration and population on which a generation goes through: culling finds its
  \<open>keepTopN + keepBtmN\<close> survivors, they are at least two, at least one child is made, and
  a remembered best model has a fitness.
\<close>

definition runnable :: "'p ga \<Rightarrow> bool" where
  "runnable self =
     (0 \<le> keepTopN self \<and> 0 \<le> keepBtmN self
      \<and> 2 \<le> keepTopN self + keepBtmN self
      \<and> 1 \<le> makeChildN self
      \<and> keepTopN self + keepBtmN self \<le> int (length (population self))
      \<and> (case bestModel self of None \<Rightarrow> True | Some b \<Rightarrow> fitness b \<noteq> None))"

text \<open>The state after the first \<open>k\<close> generations of a run (the start, if they fail).\<close>

definition stateAfter ::
  "'p modelMaker \<Rightarrow> 'p modelScorer \<Rightarrow> nat \<Rightarrow> 'p ga \<times> int \<times> int \<Rightarrow> 'p ga \<times> int \<times> int" where
  "stateAfter mk sc k st = (case generations mk sc k st of Inl e \<Rightarrow> st | Inr st' \<Rightarrow> st')"

text \<open>The number of candidates that the culling of the generation from \<open>st\<close> removes.\<close>

definition removedIn :: "'p modelScorer \<Rightarrow> 'p ga \<times> int \<times> int \<Rightarrow> nat" where
  "removedIn sc st =
     (case trackBest sc st of
        Inl e \<Rightarrow> 0
      | Inr (self2, _, _) \<Rightarrow>
          (case killUnfit self2 of
             Inl e \<Rightarrow> 0
           | Inr self3 \<Rightarrow> length (population self2) - length (population self3)))"

subsection \<open>A concrete run\<close>

text \<open>
  A maker and a scorer over numbers, and the states of the first generation of a population
  of four: a random model is the next raw draw, a child is the sum of its parents, mutation
  adds one, and the fitness of a model is its number.
\<close>

definition exMaker :: "nat modelMaker" where
  "exMaker = \<lparr> makeRandomModel = draw,
               makeChildModel = (\<lambda>m f g. (payload m + payload f, g)),
               mutateModel = (\<lambda>m g. (Suc (payload m), g)) \<rparr>"

definition exScorer :: "nat modelScorer" where
  "exScorer m = real (payload m)"

definition exSeed :: "nat \<Rightarrow> rng" where
  "exSeed n = [n, Suc n, n + 2]"

definition cand :: "nat \<Rightarrow> nat \<Rightarrow> real option \<Rightarrow> nat candidate" where
  "cand i p f = \<lparr>ident = i, payload = p, fitness = f\<rparr>"

definition exNew :: "nat ga" where
  "exNew = \<lparr> popSize = 4, keepTopFrac = Fin (1/4), keepBtmFrac = Fin (1/4),
              makeChildFrac = Fin (1/4), mutateFrac = Fin (1/2),
              keepGraveyard = True, randomState = None,
              keepTopN = 1, keepBtmN = 1, makeChildN = 1, mutateN = 2,
              graveyard = [], population = [], bestModel = None,
              rngState = [3, 1, 4, 1, 5, 9, 2, 6, 5, 3, 5, 8], nextId = 0, scoreCalls = [] \<rparr>"

definition exInitial :: "nat ga" where
  "exInitial = exNew\<lparr> population := [cand 0 3 None, cand 1 1 None, cand 2 4 None, cand 3 1 None],
                       rngState := [5, 9, 2, 6, 5, 3, 5, 8], nextId := 4 \<rparr>"

definition exScored :: "nat ga" where
  "exScored = exInitial\<lparr> population := [cand 0 3 (Some 3), cand 1 1 (Some 1),
                                          cand 2 4 (Some 4), cand 3 1 (Some 1)],
                          scoreCalls := [0, 1, 2, 3] \<rparr>"

definition exRanked :: "nat ga" where
  "exRanked = exScored\<lparr> population := [cand 2 4 (Some 4), cand 0 3 (Some 3),
                                         cand 1 1 (Some 1), cand 3 1 (Some 1)],
                         bestModel := Some (cand 2 4 (Some 4)) \<rparr>"

definition exCulled :: "nat ga" where
  "exCulled = exRanked\<lparr> population := [cand 2 4 (Some 4), cand 3 1 (Some 1)],
                         graveyard := [cand 0 3 (Some 3), cand 1 1 (Some 1)],
                         rngState := [9, 2, 6, 5, 3, 5, 8] \<rparr>"

definition exBred :: "nat ga" where
  "exBred = exCulled\<lparr> population := [cand 2 4 (Some 4), cand 3 1 (Some 1), cand 4 6 None],
                       rngState := [5, 3, 5, 8], nextId := 5 \<rparr>"

definition exRefilled :: "nat ga" where
  "exRefilled = exBred\<lparr> population := [cand 2 4 (Some 4), cand 3 1 (Some 1),
                                         cand 4 6 None, cand 5 5 None],
                         rngState := [3, 5, 8], nextId := 6 \<rparr>"

text \<open>Variants: a configuration that keeps one survivor only, and one that makes no child.\<close>

definition exLone :: "nat ga" where
  "exLone = exRanked\<lparr> keepBtmN := 0 \<rparr>"

definition exLoneCulled :: "nat ga" where
  "exLoneCulled = exLone\<lparr> population := [cand 2 4 (Some 4)],
                           graveyard := [cand 0 3 (Some 3), cand 1 1 (Some 1),
                                         cand 3 1 (Some 1)] \<rparr>"

definition exBarren :: "nat ga" where
  "exBarren = exCulled\<lparr> makeChildN := 0 \<rparr>"

text \<open>
  The object built with \<open>keepTopFrac = -0.25\<close>, \<open>keepBtmFrac = 0.5\<close> and
  \<open>makeChildFrac = 0.25\<close>, whose \<open>keepTopN\<close> is \<open>-1\<close>, and the states of its first generation
  on the same random stream.
\<close>

definition exNeg :: "nat ga" where
  "exNeg = exNew\<lparr> keepTopFrac := Fin (- 1/4), keepBtmFrac := Fin (1/2),
                   keepTopN := - 1, keepBtmN := 2 \<rparr>"

definition exNegInitial :: "nat ga" where
  "exNegInitial = exNeg\<lparr> population := [cand 0 3 None, cand 1 1 None, cand 2 4 None,
                                          cand 3 1 None],
                          rngState := [5, 9, 2, 6, 5, 3, 5, 8], nextId := 4 \<rparr>"

definition exNegRanked :: "nat ga" where
  "exNegRanked = exNegInitial\<lparr> population := [cand 2 4 (Some 4), cand 0 3 (Some 3),
                                               cand 1 1 (Some 1), cand 3 1 (Some 1)],
                               scoreCalls := [0, 1, 2, 3],
                               bestModel := Some (cand 2 4 (Some 4)) \<rparr>"

definition exNegCulled :: "nat ga" where
  "exNegCulled = exNegRanked\<lparr> population := [cand 0 3 (Some 3), cand 2 4 (Some 4)],
                              graveyard := [cand 1 1 (Some 1), cand 3 1 (Some 1)],
                              rngState := [2, 6, 5, 3, 5, 8] \<rparr>"

definition exNegBred :: "nat ga" where
  "exNegBred = exNegCulled\<lparr> population := [cand 0 3 (Some 3), cand 2 4 (Some 4),
                                            cand 4 8 None],
                            rngState := [3, 5, 8], nextId := 5 \<rparr>"

definition exNegRefilled :: "nat ga" where
  "exNegRefilled = exNegBred\<lparr> population := [cand 0 3 (Some 3), cand 2 4 (Some 4),
                                              cand 4 8 None, cand 5 3 None],
                              rngState := [5, 8], nextId := 6 \<rparr>"

text \<open>
  A culled population of four in an object of population size eight that makes three
  children (\<open>makeChildFrac = 0.375\<close>), and the state after breeding: the second child was
  drawn and mutated.
\<close>

definition exBatch :: "nat ga" where
  "exBatch = \<lparr> popSize = 8, keepTopFrac = Fin (1/4), keepBtmFrac = Fin (1/4),
                makeChildFrac = Fin (3/8), mutateFrac = Fin (1/2),
                keepGraveyard = False, randomState = None,
                keepTopN = 2, keepBtmN = 2, makeChildN = 3, mutateN = 4,
                graveyard = [],
                population = [cand 5 9 (Some 9), cand 2 4 (Some 4), cand 0 3 (Some 3),
                              cand 7 1 (Some 1)],
                bestModel = Some (cand 5 9 (Some 9)),
                rngState = [0, 0, 1, 1, 2, 2, 1, 7], nextId = 8,
                scoreCalls = [0, 1, 2, 3, 4, 5, 6, 7] \<rparr>"

definition exBatchBred :: "nat ga" where
  "exBatchBred = exBatch\<lparr> population := [cand 5 9 (Some 9), cand 2 4 (Some 4),
                                          cand 0 3 (Some 3), cand 7 1 (Some 1),
                                          cand 8 13 None, cand 9 8 None, cand 10 4 None],
                          rngState := [7], nextId := 11 \<rparr>"

text \<open>The state after the second generation of the run from \<open>exInitial\<close>.\<close>

definition exSecond :: "nat ga" where
  "exSecond = exRefilled\<lparr> population := [cand 4 6 (Some 6), cand 5 5 (Some 5),
                                            cand 6 12 None, cand 7 0 None],
                            graveyard := [cand 0 3 (Some 3), cand 1 1 (Some 1),
                                          cand 2 4 (Some 4), cand 3 1 (Some 1)],
                            bestModel := Some (cand 4 6 (Some 6)),
                            rngState := [], nextId := 8,
                            scoreCalls := [0, 1, 2, 3, 4, 5] \<rparr>"

text \<open>
  A scorer that prefers small numbers, and the states after the first three generations of
  the run from \<open>exInitial\<close> under it: the second generation brings no improvement (its best
  candidate is the remembered one), the third does.
\<close>

definition exLoss :: "nat modelScorer" where
  "exLoss m = - real (payload m)"

definition exLossFirst :: "nat ga" where
  "exLossFirst = exInitial\<lparr> population := [cand 1 1 (Some (- 1)), cand 2 4 (Some (- 4)),
                                             cand 4 6 None, cand 5 5 None],
                             graveyard := [cand 3 1 (Some (- 1)), cand 0 3 (Some (- 3))],
                             bestModel := Some (cand 1 1 (Some (- 1))),
                             rngState := [3, 5, 8], nextId := 6,
                             scoreCalls := [0, 1, 2, 3] \<rparr>"

definition exLossSecond :: "nat ga" where
  "exLossSecond = exLossFirst\<lparr> population := [cand 1 1 (Some (- 1)), cand 2 4 (Some (- 4)),
                                                cand 6 6 None, cand 7 0 None],
                                graveyard := [cand 3 1 (Some (- 1)), cand 0 3 (Some (- 3)),
                                              cand 5 5 (Some (- 5)), cand 4 6 (Some (- 6))],
                                rngState := [], nextId := 8,
                                scoreCalls := [0, 1, 2, 3, 4, 5] \<rparr>"

definition exLossThird :: "nat ga" where
  "exLossThird = exLossSecond\<lparr> population := [cand 7 0 (Some 0), cand 1 1 (Some (- 1)),
                                                cand 8 2 None, cand 9 0 None],
                                graveyard := [cand 3 1 (Some (- 1)), cand 0 3 (Some (- 3)),
                                              cand 5 5 (Some (- 5)), cand 4 6 (Some (- 6)),
                                              cand 2 4 (Some (- 4)), cand 6 6 (Some (- 6))],
                                bestModel := Some (cand 7 0 (Some 0)),
                                nextId := 10,
                                scoreCalls := [0, 1, 2, 3, 4, 5, 6, 7] \<rparr>"

text \<open>
  The object built with population size two and the fractions \<open>-1.0\<close>, \<open>1.0\<close> and \<open>1.0\<close>
  (\<open>keepTopN = -2\<close>, \<open>keepBtmN = 2\<close>, \<open>makeChildN = 2\<close>), its initial population and the
  state after its first generation.
\<close>

definition exWide :: "nat ga" where
  "exWide = \<lparr> popSize = 2, keepTopFrac = Fin (- 1), keepBtmFrac = Fin 1,
               makeChildFrac = Fin 1, mutateFrac = Fin (1/2),
               keepGraveyard = False, randomState = None,
               keepTopN = - 2, keepBtmN = 2, makeChildN = 2, mutateN = 1,
               graveyard = [], population = [], bestModel = None,
               rngState = [3, 1, 4, 1, 5, 9, 2, 6], nextId = 0, scoreCalls = [] \<rparr>"

definition exWideInitial :: "nat ga" where
  "exWideInitial = exWide\<lparr> population := [cand 0 3 None, cand 1 1 None],
                            rngState := [4, 1, 5, 9, 2, 6], nextId := 2 \<rparr>"

definition exWideAfter :: "nat ga" where
  "exWideAfter = exWideInitial\<lparr> population := [cand 0 3 (Some 3), cand 1 1 (Some 1),
                                                 cand 2 5 None, cand 3 4 None],
                                 bestModel := Some (cand 0 3 (Some 3)),
                                 rngState := [], nextId := 4, scoreCalls := [0, 1] \<rparr>"

section \<open>Construction\<close>

lemma fleInt_cases: "(\<not> fleInt x n) = (fgtInt x n \<or> x = NaN)"
  by (cases x) (auto simp: fleInt_def fgtInt_def)

lemma countOf_Inr_iff:
  "(\<exists>k. countOf x n = Inr k) = (\<exists>a b. floatOfInt n = Inr (Fin a) \<and> fmul x (Fin a) = Fin b)"
proof (cases "floatOfInt n")
  case (Inl e)
  then show ?thesis by (simp add: countOf_def)
next
  case (Inr f)
  then have "\<exists>a. f = Fin a"
    by (cases "rnd (of_int n)") (auto simp: floatOfInt_def)
  then obtain a where f: "f = Fin a" by (elim exE)
  show ?thesis
    by (cases "fmul x (Fin a)") (simp_all add: countOf_def Inr f intOfFloor_def)
qed

lemma init_Inr_iff:
  "(\<exists>self :: 'p ga. GeneticAlgorithm_init n kt kb mc mf kg rs seed g0 = Inr self)
     = (fleInt (fadd (fadd kt kb) mc) 1
        \<and> (\<exists>a b c d. countOf kt n = Inr a \<and> countOf kb n = Inr b
              \<and> countOf mc n = Inr c \<and> countOf mf n = Inr d)
        \<and> (case rs of None \<Rightarrow> True | Some sd \<Rightarrow> 0 \<le> sd \<and> sd < 2 ^ 32))"
  by (cases "countOf kt n"; cases "countOf kb n"; cases "countOf mc n"; cases "countOf mf n";
      cases rs) (simp_all add: GeneticAlgorithm_init_def Let_def)

lemma init_AssertionError_iff:
  "((GeneticAlgorithm_init n kt kb mc mf kg rs seed g0 :: error + 'p ga) = Inl AssertionError)
     = (\<not> fleInt (fadd (fadd kt kb) mc) 1)"
proof -
  have a: "countOf x n \<noteq> Inl AssertionError" for x
    by (auto simp: countOf_def floatOfInt_def intOfFloor_def split: pyfloat.splits sum.splits)
  show ?thesis
    using a[of kt] a[of kb] a[of mc] a[of mf]
    by (cases "countOf kt n"; cases "countOf kb n"; cases "countOf mc n"; cases "countOf mf n";
        cases rs) (simp_all add: GeneticAlgorithm_init_def Let_def)
qed

text \<open>
  C8, as the code has it: construction fails with the assertion error exactly when the sum
  \<open>(keepTopFrac + keepBtmFrac) + makeChildFrac\<close>, as Python computes it in binary64, is
  greater than \<open>1\<close> or is NaN. \<open>mutateFrac\<close> is not part of the sum. Construction succeeds
  exactly when the assertion passes, each of the four products \<open>frac * popSize\<close> is a finite
  float (so that \<open>int(np.floor(...))\<close> does not raise), and the seed, if given, is one that
  numpy accepts; the product with \<open>mutateFrac\<close> is finite exactly when \<open>popSize\<close> converts
  to a float and its rounded product with \<open>mutateFrac\<close> is neither NaN nor an infinity.
\<close>

theorem init_assertion_iff:
  "((GeneticAlgorithm_init n kt kb mc mf kg rs seed g0 :: error + 'p ga) = Inl AssertionError)
     = (fgtInt (fadd (fadd kt kb) mc) 1 \<or> fadd (fadd kt kb) mc = NaN)
   \<and> ((\<exists>self :: 'p ga. GeneticAlgorithm_init n kt kb mc mf kg rs seed g0 = Inr self)
     = (fleInt (fadd (fadd kt kb) mc) 1
        \<and> (\<exists>a b c d. countOf kt n = Inr a \<and> countOf kb n = Inr b
              \<and> countOf mc n = Inr c \<and> countOf mf n = Inr d)
        \<and> (case rs of None \<Rightarrow> True | Some sd \<Rightarrow> 0 \<le> sd \<and> sd < 2 ^ 32)))
   \<and> ((\<exists>d. countOf mf n = Inr d)
     = (\<exists>a b. floatOfInt n = Inr (Fin a) \<and> fmul mf (Fin a) = Fin b))"
  using init_AssertionError_iff[of n kt kb mc mf kg rs seed g0, where 'p = 'p]
    init_Inr_iff[of n kt kb mc mf kg rs seed g0, where 'p = 'p]
    countOf_Inr_iff[of mf n] fleInt_cases[of "fadd (fadd kt kb) mc" 1]
  by simp

text \<open>The construction of the example object: the assertion passes and it succeeds.\<close>

theorem init_assertion_iff_witness:
  "fleInt (fadd (fadd (Fin (1/4)) (Fin (1/4))) (Fin (1/4))) 1
   \<and> (GeneticAlgorithm_init 4 (Fin (1/4)) (Fin (1/4)) (Fin (1/4)) (Fin (1/2)) True None exSeed
        [3, 1, 4, 1, 5, 9, 2, 6, 5, 3, 5, 8] :: error + nat ga) \<noteq> Inl AssertionError
   \<and> (\<exists>self :: nat ga. GeneticAlgorithm_init 4 (Fin (1/4)) (Fin (1/4)) (Fin (1/4)) (Fin (1/2))
        True None exSeed [3, 1, 4, 1, 5, 9, 2, 6, 5, 3, 5, 8] = Inr self)"
proof -
  have s: "fleInt (fadd (fadd (Fin (1/4)) (Fin (1/4))) (Fin (1/4))) 1" by code_simp
  have c: "countOf (Fin (1/4)) 4 = Inr 1" "countOf (Fin (1/2)) 4 = Inr 2" by code_simp+
  have n: "\<not> (fgtInt (fadd (fadd (Fin (1/4)) (Fin (1/4))) (Fin (1/4))) 1
      \<or> fadd (fadd (Fin (1/4)) (Fin (1/4))) (Fin (1/4)) = NaN)"
    using s fleInt_cases[of "fadd (fadd (Fin (1/4)) (Fin (1/4))) (Fin (1/4))" 1] by simp
  from init_assertion_iff[of 4 "Fin (1/4)" "Fin (1/4)" "Fin (1/4)" "Fin (1/2)" True None exSeed
      "[3, 1, 4, 1, 5, 9, 2, 6, 5, 3, 5, 8]", where 'p = nat] s c n
  show ?thesis by simp
qed

text \<open>
  Against C8 as stated. The fractions \<open>0.5\<close>, \<open>0.5\<close> and \<open>2 ^ -60\<close> sum to more than one,
  but their binary64 sum is \<open>1.0\<close> and construction succeeds. A NaN \<open>keepTopFrac\<close> fails the
  assertion although the sum is not greater than one. With three fractions of \<open>0.25\<close>, a NaN
  \<open>mutateFrac\<close> raises \<open>ValueError\<close> and an infinite one \<open>OverflowError\<close>.
\<close>

theorem init_assertion_counterexample:
  "((1/2 + 1/2 + 1 / 2 ^ 60 :: real) > 1
    \<and> (GeneticAlgorithm_init 4 (Fin (1/2)) (Fin (1/2)) (Fin (1 / 2 ^ 60)) (Fin 0) False None
          exSeed [] :: error + nat ga)
       = Inr \<lparr> popSize = 4, keepTopFrac = Fin (1/2), keepBtmFrac = Fin (1/2),
               makeChildFrac = Fin (1 / 2 ^ 60), mutateFrac = Fin 0,
               keepGraveyard = False, randomState = None,
               keepTopN = 2, keepBtmN = 2, makeChildN = 0, mutateN = 0,
               graveyard = [], population = [], bestModel = None,
               rngState = [], nextId = 0, scoreCalls = [] \<rparr>)
   \<and> (\<not> fgtInt (fadd (fadd NaN (Fin 0)) (Fin 0)) 1
    \<and> (GeneticAlgorithm_init 4 NaN (Fin 0) (Fin 0) (Fin 0) False None exSeed []
          :: error + nat ga) = Inl AssertionError)
   \<and> (fleInt (fadd (fadd (Fin (1/4)) (Fin (1/4))) (Fin (1/4))) 1
    \<and> (GeneticAlgorithm_init 4 (Fin (1/4)) (Fin (1/4)) (Fin (1/4)) NaN False None exSeed []
          :: error + nat ga) = Inl ValueError
    \<and> (GeneticAlgorithm_init 4 (Fin (1/4)) (Fin (1/4)) (Fin (1/4)) PInf False None exSeed []
          :: error + nat ga) = Inl OverflowError)"
proof -
  have a: "(1/2 + 1/2 + 1 / 2 ^ 60 :: real) > 1" by simp
  have b: "(GeneticAlgorithm_init 4 (Fin (1/2)) (Fin (1/2)) (Fin (1 / 2 ^ 60)) (Fin 0) False None
          exSeed [] :: error + nat ga)
       = Inr \<lparr> popSize = 4, keepTopFrac = Fin (1/2), keepBtmFrac = Fin (1/2),
               makeChildFrac = Fin (1 / 2 ^ 60), mutateFrac = Fin 0,
               keepGraveyard = False, randomState = None,
               keepTopN = 2, keepBtmN = 2, makeChildN = 0, mutateN = 0,
               graveyard = [], population = [], bestModel = None,
               rngState = [], nextId = 0, scoreCalls = [] \<rparr>" by code_simp
  have c: "\<not> fgtInt (fadd (fadd NaN (Fin 0)) (Fin 0)) 1" by code_simp
  have d: "(GeneticAlgorithm_init 4 NaN (Fin 0) (Fin 0) (Fin 0) False None exSeed []
          :: error + nat ga) = Inl AssertionError" by code_simp
  have e: "fleInt (fadd (fadd (Fin (1/4)) (Fin (1/4))) (Fin (1/4))) 1" by code_simp
  have f: "(GeneticAlgorithm_init 4 (Fin (1/4)) (Fin (1/4)) (Fin (1/4)) NaN False None exSeed []
          :: error + nat ga) = Inl ValueError" by code_simp
  have g: "(GeneticAlgorithm_init 4 (Fin (1/4)) (Fin (1/4)) (Fin (1/4)) PInf False None exSeed []
          :: error + nat ga) = Inl OverflowError" by code_simp
  from a b c d e f g show ?thesis by (intro conjI)
qed

section \<open>Drawing without replacement\<close>

lemma pick_length: "length (fst (pick xs k g)) = k"
proof (induction k arbitrary: xs g)
  case 0
  then show ?case by simp
next
  case (Suc k)
  obtain r g' where d: "draw g = (r, g')" by (cases "draw g")
  define rest where "rest = take (r mod length xs) xs @ drop (Suc (r mod length xs)) xs"
  have "fst (pick xs (Suc k) g) = xs ! (r mod length xs) # fst (pick rest k g')"
    by (simp add: d Let_def rest_def split: prod.splits)
  then show ?case using Suc.IH[of rest g'] by simp
qed

lemma pick_props:
  "k \<le> length xs \<Longrightarrow> set (fst (pick xs k g)) \<subseteq> set xs \<and> (distinct xs \<longrightarrow> distinct (fst (pick xs k g)))"
proof (induction k arbitrary: xs g)
  case 0
  then show ?case by simp
next
  case (Suc k)
  obtain r g' where d: "draw g = (r, g')" by (cases "draw g")
  define i where "i = r mod length xs"
  define rest where "rest = take i xs @ drop (Suc i) xs"
  from Suc.prems have pos: "0 < length xs" by auto
  then have i: "i < length xs" by (simp add: i_def)
  have lr: "length rest = length xs - 1" using i by (simp add: rest_def)
  have sr: "set rest \<subseteq> set xs" unfolding rest_def
    using set_take_subset[of i xs] set_drop_subset[of "Suc i" xs] by auto
  have xs_eq: "xs = take i xs @ xs ! i # drop (Suc i) xs" using i by (simp add: id_take_nth_drop)
  have dr: "distinct xs \<Longrightarrow> distinct rest \<and> xs ! i \<notin> set rest"
  proof -
    assume "distinct xs"
    then have "distinct (take i xs @ xs ! i # drop (Suc i) xs)" using xs_eq by simp
    then show ?thesis by (auto simp: rest_def)
  qed
  have k: "k \<le> length rest" using Suc.prems lr by simp
  from Suc.IH[OF k, of g'] have IH: "set (fst (pick rest k g')) \<subseteq> set rest"
    "distinct rest \<longrightarrow> distinct (fst (pick rest k g'))" by auto
  have eq: "fst (pick xs (Suc k) g) = xs ! i # fst (pick rest k g')"
    by (simp add: d Let_def i_def rest_def split: prod.splits)
  show ?case unfolding eq using IH sr dr i by auto
qed

lemma choice_Inr:
  assumes "choice a sz g = Inr (ys, g')"
  shows "0 \<le> sz" "sz \<le> int (length a)" "length ys = nat sz" "set ys \<subseteq> set a"
        "distinct a \<Longrightarrow> distinct ys"
proof -
  from assms have nn: "0 \<le> sz" and le: "sz \<le> int (length a)" and p: "pick a (nat sz) g = (ys, g')"
    by (auto simp: choice_def split: if_splits)
  have k: "nat sz \<le> length a" using nn le by simp
  show "0 \<le> sz" "sz \<le> int (length a)" by fact+
  show "length ys = nat sz" using pick_length[of a "nat sz" g] p by simp
  show "set ys \<subseteq> set a" using pick_props[OF k, of g] p by simp
  show "distinct a \<Longrightarrow> distinct ys" using pick_props[OF k, of g] p by simp
qed

lemma choice_ok:
  "0 \<le> sz \<Longrightarrow> sz \<le> int (length a) \<Longrightarrow> \<exists>ys g'. choice a sz g = Inr (ys, g')"
  by (cases "pick a (nat sz) g") (auto simp: choice_def)

lemma sortPop_Inr:
  assumes "sortPopByFitness s = Inr s'"
  shows "population s' = sort_key (\<lambda>m. - fitnessKey m) (population s)"
    "s' = s\<lparr>population := population s'\<rparr>"
  using assms by (auto simp: sortPopByFitness_def split: if_splits)

lemma remainingInds_eq:
  "remainingInds s = [nat (keepTopN s) ..< length (population s)]"
proof -
  define t where "t = nat (keepTopN s)"
  define n where "n = length (population s)"
  have "filter (\<lambda>i. i \<notin> set [0..<t]) [0..<n] = [t..<n]"
  proof (cases "t \<le> n")
    case True
    then have "[0..<n] = [0..<t] @ [t..<n]" by (metis le0 upt_add_eq_append le_add_diff_inverse)
    then have "filter (\<lambda>i. i \<notin> set [0..<t]) [0..<n]
        = filter (\<lambda>i. i \<notin> set [0..<t]) [0..<t] @ filter (\<lambda>i. i \<notin> set [0..<t]) [t..<n]"
      by simp
    also have "filter (\<lambda>i. i \<notin> set [0..<t]) [0..<t] = []" by (simp add: filter_empty_conv)
    also have "filter (\<lambda>i. i \<notin> set [0..<t]) [t..<n] = [t..<n]" by (simp add: filter_id_conv)
    finally show ?thesis by simp
  next
    case False
    then show ?thesis by (simp add: filter_empty_conv)
  qed
  then show ?thesis by (simp add: remainingInds_def topKeepInds_def t_def n_def)
qed

section \<open>Culling\<close>

lemma sortPop_fields:
  assumes "sortPopByFitness s = Inr s'"
  shows "keepTopN s' = keepTopN s" "keepBtmN s' = keepBtmN s" "makeChildN s' = makeChildN s"
    "popSize s' = popSize s" "keepGraveyard s' = keepGraveyard s" "graveyard s' = graveyard s"
    "rngState s' = rngState s" "nextId s' = nextId s" "scoreCalls s' = scoreCalls s"
    "bestModel s' = bestModel s" "mutateN s' = mutateN s"
    "length (population s') = length (population s)"
    "set (population s') = set (population s)"
  using assms by (auto simp: sortPopByFitness_def split: if_splits)

lemma killUnfit_Inr:
  assumes "killUnfit s0 = Inr s'"
  obtains s btm g where
    "sortPopByFitness s0 = Inr s"
    "nat (keepTopN s) \<le> length (population s)"
    "btmKeepInds s = Inr (btm, g)"
    "population s' = map (\<lambda>i. population s ! i) (topKeepInds s @ btm)"
    "graveyard s' = (if keepGraveyard s
        then graveyard s @ filter (\<lambda>m. ident m \<notin> set (map ident (population s'))) (population s)
        else graveyard s)"
    "s' = s\<lparr>population := population s', graveyard := graveyard s', rngState := g\<rparr>"
proof -
  from assms obtain s where s: "sortPopByFitness s0 = Inr s"
    by (auto simp: killUnfit_def split: sum.splits)
  from assms s have top: "list_all (\<lambda>i. i < length (population s)) (topKeepInds s)"
    by (auto simp: killUnfit_def split: if_splits)
  then have top': "nat (keepTopN s) \<le> length (population s)"
    by (auto simp: topKeepInds_def list_all_iff)
  from assms s top obtain btm g where b: "btmKeepInds s = Inr (btm, g)"
    by (auto simp: killUnfit_def split: sum.splits if_splits)
  from assms s top b have disj: "set (topKeepInds s) \<inter> set btm = {}"
    by (auto simp: killUnfit_def Let_def split: if_splits)
  note kd = killUnfit_def Let_def
  from assms s top b disj have p:
    "population s' = map (\<lambda>i. population s ! i) (topKeepInds s @ btm)"
    by (auto simp: kd)
  from assms s top b disj have gy:
    "graveyard s' = (if keepGraveyard s
        then graveyard s @ filter (\<lambda>m. ident m \<notin> set (map ident (population s'))) (population s)
        else graveyard s)"
    by (auto simp: kd)
  from assms s top b disj have r:
    "s' = s\<lparr>population := population s', graveyard := graveyard s', rngState := g\<rparr>"
    by (auto simp: kd)
  show thesis
    by (rule that[OF s top' b p gy r])
qed

lemma btmKeepInds_Inr:
  assumes "btmKeepInds s = Inr (btm, g)"
  shows "0 \<le> keepBtmN s" "length btm = nat (keepBtmN s)" "distinct btm"
    "set btm \<subseteq> {nat (keepTopN s) ..< length (population s)}"
proof -
  note c = choice_Inr[OF assms[unfolded btmKeepInds_def]]
  show "0 \<le> keepBtmN s" by (rule c)
  show "length btm = nat (keepBtmN s)" by (rule c)
  show "distinct btm" using c(5) by (simp add: remainingInds_eq)
  show "set btm \<subseteq> {nat (keepTopN s) ..< length (population s)}"
    using c(4) by (simp add: remainingInds_eq)
qed


lemma sortPop_short:
  assumes "sortPopByFitness s = Inr s'" and "length (population s) < 2"
  shows "population s' = population s"
proof -
  from assms(2) have "population s = [] \<or> (\<exists>x. population s = [x])"
    by (cases "population s"; cases "tl (population s)") auto
  then show ?thesis using sortPop_Inr(1)[OF assms(1)] by auto
qed

lemma sortPop_scored:
  assumes "sortPopByFitness s = Inr s'" and "2 \<le> length (population s)"
    and "m \<in> set (population s)"
  shows "fitness m = Some (fitnessKey m)"
proof -
  from assms(1,2) have "\<not> list_ex (\<lambda>m. fitness m = None) (population s)"
    by (auto simp: sortPopByFitness_def split: if_splits)
  with assms(3) have "fitness m \<noteq> None" by (auto simp: list_ex_iff)
  then show ?thesis by (auto simp: fitnessKey_def)
qed

lemma sortPop_stable:
  assumes "sortPopByFitness s = Inr s'"
  shows "filter (\<lambda>m. fitness m = f) (population s') = filter (\<lambda>m. fitness m = f) (population s)"
proof (cases "length (population s) < 2")
  case True
  then show ?thesis by (simp add: sortPop_short[OF assms])
next
  case False
  then have two: "2 \<le> length (population s)" by simp
  note sc = sortPop_scored[OF assms two]
  note st = sortPop_fields(13)[OF assms]
  show ?thesis
  proof (cases f)
    case None
    have "filter (\<lambda>m. fitness m = None) (population s') = []"
      using sc st by (auto simp: filter_empty_conv)
    moreover have "filter (\<lambda>m. fitness m = None) (population s) = []"
      using sc by (auto simp: filter_empty_conv)
    ultimately show ?thesis by (simp add: None)
  next
    case (Some x)
    have a: "filter (\<lambda>m. fitness m = Some x) (population s')
        = filter (\<lambda>m. - fitnessKey m = - x) (population s')"
      by (rule filter_cong) (use sc st in auto)
    have b: "filter (\<lambda>m. fitness m = Some x) (population s)
        = filter (\<lambda>m. - fitnessKey m = - x) (population s)"
      by (rule filter_cong) (use sc in auto)
    have c: "filter (\<lambda>m. - fitnessKey m = - x) (population s')
        = filter (\<lambda>m. - fitnessKey m = - x) (population s)"
      unfolding sortPop_Inr(1)[OF assms] by (rule sort_key_stable)
    show ?thesis by (simp only: Some a b c)
  qed
qed

lemma sortPop_descending:
  assumes "sortPopByFitness s = Inr s'" and "i < j" and "j < length (population s')"
  shows "\<exists>x y. fitness (population s' ! i) = Some x \<and> fitness (population s' ! j) = Some y
           \<and> y \<le> x"
proof -
  note l = sortPop_fields(12)[OF assms(1)]
  note st = sortPop_fields(13)[OF assms(1)]
  from assms(2,3) have two: "2 \<le> length (population s)" by (simp add: l[symmetric])
  have mi: "population s' ! i \<in> set (population s)"
    using assms(2,3) st nth_mem[of i "population s'"] by simp
  have mj: "population s' ! j \<in> set (population s)"
    using assms(3) st nth_mem[of j "population s'"] by simp
  note fi = sortPop_scored[OF assms(1) two mi]
  note fj = sortPop_scored[OF assms(1) two mj]
  have "sorted (map (\<lambda>m. - fitnessKey m) (population s'))"
    unfolding sortPop_Inr(1)[OF assms(1)] by (rule sorted_sort_key)
  then have "map (\<lambda>m. - fitnessKey m) (population s') ! i
      \<le> map (\<lambda>m. - fitnessKey m) (population s') ! j"
    using assms(2,3) by (simp add: sorted_iff_nth_mono del: nth_map)
  then have "fitnessKey (population s' ! j) \<le> fitnessKey (population s' ! i)"
    using assms(2,3) by simp
  with fi fj show ?thesis by simp
qed

text \<open>
  C3, as the code has it: in a culling step that completes, the population is first sorted
  by descending fitness, candidates of equal fitness keeping their order; the top-keep
  positions are the first \<open>max(keepTopN, 0)\<close> ranks (\<open>range(keepTopN)\<close> is empty for a
  negative \<open>keepTopN\<close>), the bottom-keep positions are \<open>keepBtmN\<close> pairwise different
  positions outside the top-keep ones, the two are disjoint, and the new population is the
  candidates at the top-keep positions followed by those at the bottom-keep positions,
  \<open>max(keepTopN, 0) + keepBtmN\<close> in all, which is \<open>keepTopN + keepBtmN\<close> when \<open>keepTopN\<close> is
  not negative.
\<close>

theorem killUnfit_partition:
  assumes "killUnfit self0 = Inr self'"
  shows "\<exists>self btm g. sortPopByFitness self0 = Inr self \<and> btmKeepInds self = Inr (btm, g)
     \<and> length (population self) = length (population self0)
     \<and> set (population self) = set (population self0)
     \<and> (\<forall>f. filter (\<lambda>m. fitness m = f) (population self)
             = filter (\<lambda>m. fitness m = f) (population self0))
     \<and> (\<forall>i j. i < j \<longrightarrow> j < length (population self) \<longrightarrow>
           (\<exists>x y. fitness (population self ! i) = Some x
               \<and> fitness (population self ! j) = Some y \<and> y \<le> x))
     \<and> topKeepInds self = [0 ..< nat (keepTopN self0)]
     \<and> set btm \<subseteq> {0 ..< length (population self)} - set (topKeepInds self)
     \<and> distinct btm \<and> int (length btm) = keepBtmN self0
     \<and> set (topKeepInds self) \<inter> set btm = {}
     \<and> population self' = map (\<lambda>i. population self ! i) (topKeepInds self @ btm)
     \<and> int (length (population self')) = max 0 (keepTopN self0) + keepBtmN self0
     \<and> (0 \<le> keepTopN self0 \<longrightarrow>
           int (length (population self')) = keepTopN self0 + keepBtmN self0)"
proof -
  from assms(1) obtain s btm g where
    s: "sortPopByFitness self0 = Inr s" and
    top: "nat (keepTopN s) \<le> length (population s)" and
    b: "btmKeepInds s = Inr (btm, g)" and
    pop: "population self' = map (\<lambda>i. population s ! i) (topKeepInds s @ btm)"
    by (rule killUnfit_Inr)
  note f = sortPop_fields[OF s]
  note bb = btmKeepInds_Inr[OF b]
  have stable: "\<forall>f. filter (\<lambda>m. fitness m = f) (population s)
             = filter (\<lambda>m. fitness m = f) (population self0)"
    using sortPop_stable[OF s] by simp
  have desc: "\<forall>i j. i < j \<longrightarrow> j < length (population s) \<longrightarrow>
           (\<exists>x y. fitness (population s ! i) = Some x
               \<and> fitness (population s ! j) = Some y \<and> y \<le> x)"
    using sortPop_descending[OF s] by simp
  have t: "topKeepInds s = [0 ..< nat (keepTopN self0)]" by (simp add: topKeepInds_def f)
  have sub: "set btm \<subseteq> {0 ..< length (population s)} - set (topKeepInds s)"
    using bb(4) by (auto simp: topKeepInds_def)
  have len: "int (length (population self')) = max 0 (keepTopN self0) + keepBtmN self0"
    using bb(1,2) by (simp add: pop t f)
  have len': "0 \<le> keepTopN self0 \<longrightarrow>
           int (length (population self')) = keepTopN self0 + keepBtmN self0"
    using len by simp
  have lb: "int (length btm) = keepBtmN self0" using bb(1,2) by (simp add: f)
  have disj: "set (topKeepInds s) \<inter> set btm = {}" using sub by auto
  have "sortPopByFitness self0 = Inr s \<and> btmKeepInds s = Inr (btm, g)
     \<and> length (population s) = length (population self0)
     \<and> set (population s) = set (population self0)
     \<and> (\<forall>f. filter (\<lambda>m. fitness m = f) (population s)
             = filter (\<lambda>m. fitness m = f) (population self0))
     \<and> (\<forall>i j. i < j \<longrightarrow> j < length (population s) \<longrightarrow>
           (\<exists>x y. fitness (population s ! i) = Some x
               \<and> fitness (population s ! j) = Some y \<and> y \<le> x))
     \<and> topKeepInds s = [0 ..< nat (keepTopN self0)]
     \<and> set btm \<subseteq> {0 ..< length (population s)} - set (topKeepInds s)
     \<and> distinct btm \<and> int (length btm) = keepBtmN self0
     \<and> set (topKeepInds s) \<inter> set btm = {}
     \<and> population self' = map (\<lambda>i. population s ! i) (topKeepInds s @ btm)
     \<and> int (length (population self')) = max 0 (keepTopN self0) + keepBtmN self0
     \<and> (0 \<le> keepTopN self0 \<longrightarrow>
           int (length (population self')) = keepTopN self0 + keepBtmN self0)"
    using s b f(12) f(13) stable desc t sub bb(3) lb disj pop len len'
    by (intro conjI)
  then show ?thesis by (intro exI)
qed

text \<open>
  The culling of the scored, unsorted population of the example: ranks are by fitness, the
  two candidates of fitness \<open>1\<close> keep their order, rank \<open>0\<close> is kept from the top and rank
  \<open>3\<close> is drawn from the rest.
\<close>

theorem killUnfit_partition_witness:
  "killUnfit exScored = Inr (exCulled\<lparr>bestModel := None\<rparr>)
   \<and> 0 \<le> keepTopN exScored
   \<and> (\<exists>self btm g. sortPopByFitness exScored = Inr self \<and> btmKeepInds self = Inr (btm, g)
       \<and> population exScored = [cand 0 3 (Some 3), cand 1 1 (Some 1),
                                 cand 2 4 (Some 4), cand 3 1 (Some 1)]
       \<and> population self = [cand 2 4 (Some 4), cand 0 3 (Some 3),
                             cand 1 1 (Some 1), cand 3 1 (Some 1)]
       \<and> filter (\<lambda>m. fitness m = Some 1) (population self)
           = filter (\<lambda>m. fitness m = Some 1) (population exScored)
       \<and> (\<exists>x y. fitness (population self ! 0) = Some x
             \<and> fitness (population self ! 1) = Some y \<and> y \<le> x)
       \<and> (\<exists>x y. fitness (population self ! 1) = Some x
             \<and> fitness (population self ! 3) = Some y \<and> y \<le> x)
       \<and> topKeepInds self = [0] \<and> btm = [3]
       \<and> set btm \<subseteq> {0 ..< length (population self)} - set (topKeepInds self)
       \<and> distinct btm \<and> int (length btm) = keepBtmN exScored
       \<and> set (topKeepInds self) \<inter> set btm = {}
       \<and> population (exCulled\<lparr>bestModel := None\<rparr>)
           = map (\<lambda>i. population self ! i) (topKeepInds self @ btm))
   \<and> population (exCulled\<lparr>bestModel := None\<rparr>) = [cand 2 4 (Some 4), cand 3 1 (Some 1)]
   \<and> int (length (population (exCulled\<lparr>bestModel := None\<rparr>)))
       = keepTopN exScored + keepBtmN exScored"
proof -
  have h: "killUnfit exScored = Inr (exCulled\<lparr>bestModel := None\<rparr>)" by code_simp
  have k: "0 \<le> keepTopN exScored" by code_simp
  have p0: "population exScored = [cand 0 3 (Some 3), cand 1 1 (Some 1),
                                 cand 2 4 (Some 4), cand 3 1 (Some 1)]" by code_simp
  have pc: "population (exCulled\<lparr>bestModel := None\<rparr>)
      = [cand 2 4 (Some 4), cand 3 1 (Some 1)]" by code_simp
  have e1: "sortPopByFitness exScored
      = Inr (exScored\<lparr>population := [cand 2 4 (Some 4), cand 0 3 (Some 3),
                                       cand 1 1 (Some 1), cand 3 1 (Some 1)]\<rparr>)" by code_simp
  have e2: "btmKeepInds (exScored\<lparr>population := [cand 2 4 (Some 4), cand 0 3 (Some 3),
                                       cand 1 1 (Some 1), cand 3 1 (Some 1)]\<rparr>)
      = Inr ([3], [9, 2, 6, 5, 3, 5, 8])" by code_simp
  have e3: "nat (keepTopN exScored) = 1" by code_simp
  from killUnfit_partition[OF h] obtain s btm g where
    tc: "sortPopByFitness exScored = Inr s \<and> btmKeepInds s = Inr (btm, g)
     \<and> length (population s) = length (population exScored)
     \<and> set (population s) = set (population exScored)
     \<and> (\<forall>f. filter (\<lambda>m. fitness m = f) (population s)
             = filter (\<lambda>m. fitness m = f) (population exScored))
     \<and> (\<forall>i j. i < j \<longrightarrow> j < length (population s) \<longrightarrow>
           (\<exists>x y. fitness (population s ! i) = Some x
               \<and> fitness (population s ! j) = Some y \<and> y \<le> x))
     \<and> topKeepInds s = [0 ..< nat (keepTopN exScored)]
     \<and> set btm \<subseteq> {0 ..< length (population s)} - set (topKeepInds s)
     \<and> distinct btm \<and> int (length btm) = keepBtmN exScored
     \<and> set (topKeepInds s) \<inter> set btm = {}
     \<and> population (exCulled\<lparr>bestModel := None\<rparr>)
          = map (\<lambda>i. population s ! i) (topKeepInds s @ btm)
     \<and> int (length (population (exCulled\<lparr>bestModel := None\<rparr>)))
          = max 0 (keepTopN exScored) + keepBtmN exScored
     \<and> (0 \<le> keepTopN exScored \<longrightarrow>
           int (length (population (exCulled\<lparr>bestModel := None\<rparr>)))
             = keepTopN exScored + keepBtmN exScored)"
    by (elim exE)
  from tc have c1: "sortPopByFitness exScored = Inr s" by (elim conjE)
  from tc have c2: "btmKeepInds s = Inr (btm, g)" by (elim conjE)
  from tc have c3: "length (population s) = length (population exScored)" by (elim conjE)
  from tc have c5: "\<forall>f. filter (\<lambda>m. fitness m = f) (population s)
             = filter (\<lambda>m. fitness m = f) (population exScored)" by (elim conjE)
  from tc have c6: "\<forall>i j. i < j \<longrightarrow> j < length (population s) \<longrightarrow>
           (\<exists>x y. fitness (population s ! i) = Some x
               \<and> fitness (population s ! j) = Some y \<and> y \<le> x)" by (elim conjE)
  from tc have c7: "topKeepInds s = [0 ..< nat (keepTopN exScored)]" by (elim conjE)
  from tc have c8: "set btm \<subseteq> {0 ..< length (population s)} - set (topKeepInds s)"
    by (elim conjE)
  from tc have c9: "distinct btm" by (elim conjE)
  from tc have c10: "int (length btm) = keepBtmN exScored" by (elim conjE)
  from tc have c11: "set (topKeepInds s) \<inter> set btm = {}" by (elim conjE)
  from tc have c12: "population (exCulled\<lparr>bestModel := None\<rparr>)
          = map (\<lambda>i. population s ! i) (topKeepInds s @ btm)" by (elim conjE)
  from tc have c14: "0 \<le> keepTopN exScored \<longrightarrow>
           int (length (population (exCulled\<lparr>bestModel := None\<rparr>)))
             = keepTopN exScored + keepBtmN exScored" by (elim conjE)
  from c1 e1 have s: "s = exScored\<lparr>population := [cand 2 4 (Some 4), cand 0 3 (Some 3),
                                       cand 1 1 (Some 1), cand 3 1 (Some 1)]\<rparr>" by simp
  have ps: "population s = [cand 2 4 (Some 4), cand 0 3 (Some 3),
                             cand 1 1 (Some 1), cand 3 1 (Some 1)]" by (simp add: s)
  from c2 e2 have b: "btm = [3]" by (simp add: s)
  have ls: "length (population s) = 4" by (simp add: ps)
  have d1: "filter (\<lambda>m. fitness m = Some 1) (population s)
           = filter (\<lambda>m. fitness m = Some 1) (population exScored)"
    using c5 by (rule spec)
  have d2: "\<exists>x y. fitness (population s ! 0) = Some x
             \<and> fitness (population s ! 1) = Some y \<and> y \<le> x"
    using c6[rule_format, of 0 1] ls by simp
  have d3: "\<exists>x y. fitness (population s ! 1) = Some x
             \<and> fitness (population s ! 3) = Some y \<and> y \<le> x"
    using c6[rule_format, of 1 3] ls by simp
  have t: "topKeepInds s = [0]" using c7 e3 by simp
  have l: "int (length (population (exCulled\<lparr>bestModel := None\<rparr>)))
       = keepTopN exScored + keepBtmN exScored"
    using c14 k by (elim impE)
  have "sortPopByFitness exScored = Inr s \<and> btmKeepInds s = Inr (btm, g)
       \<and> population exScored = [cand 0 3 (Some 3), cand 1 1 (Some 1),
                                 cand 2 4 (Some 4), cand 3 1 (Some 1)]
       \<and> population s = [cand 2 4 (Some 4), cand 0 3 (Some 3),
                             cand 1 1 (Some 1), cand 3 1 (Some 1)]
       \<and> filter (\<lambda>m. fitness m = Some 1) (population s)
           = filter (\<lambda>m. fitness m = Some 1) (population exScored)
       \<and> (\<exists>x y. fitness (population s ! 0) = Some x
             \<and> fitness (population s ! 1) = Some y \<and> y \<le> x)
       \<and> (\<exists>x y. fitness (population s ! 1) = Some x
             \<and> fitness (population s ! 3) = Some y \<and> y \<le> x)
       \<and> topKeepInds s = [0] \<and> btm = [3]
       \<and> set btm \<subseteq> {0 ..< length (population s)} - set (topKeepInds s)
       \<and> distinct btm \<and> int (length btm) = keepBtmN exScored
       \<and> set (topKeepInds s) \<inter> set btm = {}
       \<and> population (exCulled\<lparr>bestModel := None\<rparr>)
           = map (\<lambda>i. population s ! i) (topKeepInds s @ btm)"
    using c1 c2 p0 ps d1 d2 d3 t b c8 c9 c10 c11 c12 by (intro conjI)
  then have ex: "\<exists>self btm g. sortPopByFitness exScored = Inr self \<and> btmKeepInds self = Inr (btm, g)
       \<and> population exScored = [cand 0 3 (Some 3), cand 1 1 (Some 1),
                                 cand 2 4 (Some 4), cand 3 1 (Some 1)]
       \<and> population self = [cand 2 4 (Some 4), cand 0 3 (Some 3),
                             cand 1 1 (Some 1), cand 3 1 (Some 1)]
       \<and> filter (\<lambda>m. fitness m = Some 1) (population self)
           = filter (\<lambda>m. fitness m = Some 1) (population exScored)
       \<and> (\<exists>x y. fitness (population self ! 0) = Some x
             \<and> fitness (population self ! 1) = Some y \<and> y \<le> x)
       \<and> (\<exists>x y. fitness (population self ! 1) = Some x
             \<and> fitness (population self ! 3) = Some y \<and> y \<le> x)
       \<and> topKeepInds self = [0] \<and> btm = [3]
       \<and> set btm \<subseteq> {0 ..< length (population self)} - set (topKeepInds self)
       \<and> distinct btm \<and> int (length btm) = keepBtmN exScored
       \<and> set (topKeepInds self) \<inter> set btm = {}
       \<and> population (exCulled\<lparr>bestModel := None\<rparr>)
           = map (\<lambda>i. population self ! i) (topKeepInds self @ btm)"
    by (intro exI)
  from h k ex pc l show ?thesis by (intro conjI)
qed

text \<open>
  Against C3 as stated. The constructor accepts \<open>keepTopFrac = -0.25\<close> with
  \<open>keepBtmFrac = 0.5\<close> and \<open>makeChildFrac = 0.25\<close> (their sum is \<open>0.5\<close>), which gives
  \<open>keepTopN = -1\<close> and \<open>keepBtmN = 2\<close>. The first culling of that object keeps no candidate
  from the top and two from the rest: two survivors, not \<open>keepTopN + keepBtmN = 1\<close>.
\<close>

theorem killUnfit_partition_counterexample:
  "(GeneticAlgorithm_init 4 (Fin (- 1/4)) (Fin (1/2)) (Fin (1/4)) (Fin (1/2)) True None exSeed
        [3, 1, 4, 1, 5, 9, 2, 6, 5, 3, 5, 8] :: error + nat ga) = Inr exNeg
   \<and> initializePop exMaker exNeg = Inr exNegInitial
   \<and> trackBest exScorer (exNegInitial, 0, 0) = Inr (exNegRanked, 1, 0)
   \<and> killUnfit exNegRanked = Inr exNegCulled
   \<and> keepTopN exNegRanked = - 1 \<and> keepBtmN exNegRanked = 2
   \<and> topKeepInds exNegRanked = []
   \<and> btmKeepInds exNegRanked = Inr ([1, 0], [2, 6, 5, 3, 5, 8])
   \<and> population exNegCulled = [cand 0 3 (Some 3), cand 2 4 (Some 4)]
   \<and> int (length (population exNegCulled)) \<noteq> keepTopN exNegRanked + keepBtmN exNegRanked"
  by code_simp


section \<open>Breeding\<close>

lemma choice_two_fail: "length pop < 2 \<Longrightarrow> choice pop 2 g = Inl ValueError"
  by (auto simp: choice_def)

lemma choice_two_ok: "2 \<le> length pop \<Longrightarrow> \<exists>ps g'. choice pop 2 g = Inr (ps, g')"
  by (rule choice_ok) auto

lemma breed_fail: "0 < k \<Longrightarrow> length pop < 2 \<Longrightarrow> breed mk pop k g n = Inl ValueError"
  by (cases k) (auto simp: choice_two_fail)

lemma breed_Inr:
  "breed mk pop k g n = Inr (cs, g', n') \<Longrightarrow>
     length cs = k \<and> n' = n + k \<and> map ident cs = [n ..< n + k]
     \<and> list_all (\<lambda>c. fitness c = None) cs"
proof (induction k arbitrary: g n cs g' n')
  case 0
  then show ?case by simp
next
  case (Suc k)
  from Suc.prems obtain ps g1 where c: "choice pop 2 g = Inr (ps, g1)"
    by (auto split: sum.splits)
  obtain p g2 where m: "makeChildModel mk (ps ! 0) (ps ! 1) g1 = (p, g2)"
    by (cases "makeChildModel mk (ps ! 0) (ps ! 1) g1")
  from Suc.prems c m obtain cs' where
    r: "breed mk pop k g2 (Suc n) = Inr (cs', g', n')" and
    cs: "cs = \<lparr>ident = n, payload = p, fitness = None\<rparr> # cs'"
    by (auto split: sum.splits)
  have u: "[n ..< n + Suc k] = n # [Suc n ..< Suc n + k]" by (simp add: upt_conv_Cons del: upt_Suc)
  from Suc.IH[OF r] show ?case unfolding u by (simp add: cs)
qed

lemma breed_ok:
  "2 \<le> length pop \<Longrightarrow> \<exists>cs g' n'. breed mk pop k g n = Inr (cs, g', n')"
proof (induction k arbitrary: g n)
  case 0
  then show ?case by simp
next
  case (Suc k)
  from choice_two_ok[OF Suc.prems] obtain ps g1 where c: "choice pop 2 g = Inr (ps, g1)"
    by blast
  obtain p g2 where m: "makeChildModel mk (ps ! 0) (ps ! 1) g1 = (p, g2)"
    by (cases "makeChildModel mk (ps ! 0) (ps ! 1) g1")
  from Suc.IH[OF Suc.prems, of g2 "Suc n"] obtain cs g' n' where
    "breed mk pop k g2 (Suc n) = Inr (cs, g', n')" by blast
  then show ?case using m by (simp add: c)
qed

lemma choice1_Inr: "choice1 a g = Inr (j, g') \<Longrightarrow> j < length a"
  by (auto simp: choice1_def split: if_splits prod.splits)

lemma choice1_ok: "a \<noteq> [] \<Longrightarrow> \<exists>j g'. choice1 a g = Inr (j, g')"
  by (cases "draw g") (auto simp: choice1_def)

lemma choice1_any: "i < length a \<Longrightarrow> choice1 a (i # g) = Inr (i, g)"
  by (auto simp: choice1_def)

lemma makeChildren_Inr:
  assumes "makeChildren mk s = Inr s'"
  obtains children g j g' p where
    "breed mk (population s) (nat (makeChildN s)) (rngState s) (nextId s)
       = Inr (children, g, nextId s')"
    "choice1 children g = Inr (j, g')"
    "mutateModel mk (children ! j) g' = (p, rngState s')"
    "population s' = population s @ children[j := (children ! j)\<lparr>payload := p\<rparr>]"
    "s' = s\<lparr>population := population s', rngState := rngState s', nextId := nextId s'\<rparr>"
proof -
  from assms obtain children g n where
    b: "breed mk (population s) (nat (makeChildN s)) (rngState s) (nextId s) = Inr (children, g, n)"
    by (auto simp: makeChildren_def split: sum.splits)
  from assms b obtain j g' where c: "choice1 children g = Inr (j, g')"
    by (auto simp: makeChildren_def split: sum.splits)
  obtain p g'' where m: "mutateModel mk (children ! j) g' = (p, g'')"
    by (cases "mutateModel mk (children ! j) g'")
  from assms b c m have e:
    "s' = s\<lparr>population := population s @ children[j := (children ! j)\<lparr>payload := p\<rparr>],
          rngState := g'', nextId := n\<rparr>"
    by (simp add: makeChildren_def)
  show thesis
    by (rule that[of children g j g' p]) (simp_all add: e b c m)
qed

lemma makeChildren_none: "makeChildN s \<le> 0 \<Longrightarrow> makeChildren mk s = Inl ValueError"
  by (simp add: makeChildren_def choice1_def)

lemma makeChildren_few:
  "1 \<le> makeChildN s \<Longrightarrow> length (population s) < 2 \<Longrightarrow> makeChildren mk s = Inl ValueError"
  by (simp add: makeChildren_def breed_fail)

lemma makeChildren_ok:
  assumes "1 \<le> makeChildN s" and "2 \<le> length (population s)"
  shows "\<exists>s'. makeChildren mk s = Inr s'"
proof -
  from breed_ok[OF assms(2)] obtain cs g n where
    b: "breed mk (population s) (nat (makeChildN s)) (rngState s) (nextId s) = Inr (cs, g, n)"
    by blast
  from breed_Inr[OF b] assms(1) have "cs \<noteq> []" by auto
  from choice1_ok[OF this] obtain j g' where c: "choice1 cs g = Inr (j, g')" by blast
  show ?thesis by (cases "mutateModel mk (cs ! j) g'") (simp add: makeChildren_def b c)
qed

section \<open>What each phase leaves unchanged\<close>

lemma killUnfit_fields:
  assumes "killUnfit s0 = Inr s'"
  shows "keepTopN s' = keepTopN s0" "keepBtmN s' = keepBtmN s0" "makeChildN s' = makeChildN s0"
    "popSize s' = popSize s0" "keepGraveyard s' = keepGraveyard s0"
    "nextId s' = nextId s0" "scoreCalls s' = scoreCalls s0"
    "bestModel s' = bestModel s0" "mutateN s' = mutateN s0"
proof -
  from assms obtain s btm g where
    s: "sortPopByFitness s0 = Inr s" and
    r: "s' = s\<lparr>population := population s', graveyard := graveyard s', rngState := g\<rparr>"
    by (rule killUnfit_Inr)
  note f = sortPop_fields[OF s]
  show "keepTopN s' = keepTopN s0" by (subst r) (simp add: f)
  show "keepBtmN s' = keepBtmN s0" by (subst r) (simp add: f)
  show "makeChildN s' = makeChildN s0" by (subst r) (simp add: f)
  show "popSize s' = popSize s0" by (subst r) (simp add: f)
  show "keepGraveyard s' = keepGraveyard s0" by (subst r) (simp add: f)
  show "nextId s' = nextId s0" by (subst r) (simp add: f)
  show "scoreCalls s' = scoreCalls s0" by (subst r) (simp add: f)
  show "bestModel s' = bestModel s0" by (subst r) (simp add: f)
  show "mutateN s' = mutateN s0" by (subst r) (simp add: f)
qed

lemma killUnfit_length:
  assumes "killUnfit s0 = Inr s'"
  shows "length (population s') = nat (keepTopN s0) + nat (keepBtmN s0)"
proof -
  from assms obtain s btm g where
    s: "sortPopByFitness s0 = Inr s" and
    b: "btmKeepInds s = Inr (btm, g)" and
    p: "population s' = map (\<lambda>i. population s ! i) (topKeepInds s @ btm)"
    by (rule killUnfit_Inr)
  show ?thesis
    using btmKeepInds_Inr(2)[OF b] by (simp add: p topKeepInds_def sortPop_fields[OF s])
qed

lemma makeChildren_fields:
  assumes "makeChildren mk s = Inr s'"
  shows "keepTopN s' = keepTopN s" "keepBtmN s' = keepBtmN s" "makeChildN s' = makeChildN s"
    "popSize s' = popSize s" "keepGraveyard s' = keepGraveyard s" "graveyard s' = graveyard s"
    "scoreCalls s' = scoreCalls s" "bestModel s' = bestModel s" "mutateN s' = mutateN s"
proof -
  from assms have
    r: "s' = s\<lparr>population := population s', rngState := rngState s', nextId := nextId s'\<rparr>"
    by (rule makeChildren_Inr)
  show "keepTopN s' = keepTopN s" by (subst r) simp
  show "keepBtmN s' = keepBtmN s" by (subst r) simp
  show "makeChildN s' = makeChildN s" by (subst r) simp
  show "popSize s' = popSize s" by (subst r) simp
  show "keepGraveyard s' = keepGraveyard s" by (subst r) simp
  show "graveyard s' = graveyard s" by (subst r) simp
  show "scoreCalls s' = scoreCalls s" by (subst r) simp
  show "bestModel s' = bestModel s" by (subst r) simp
  show "mutateN s' = mutateN s" by (subst r) simp
qed

lemma makeChildren_length:
  assumes "makeChildren mk s = Inr s'"
  shows "1 \<le> makeChildN s" "2 \<le> length (population s)"
    "length (population s') = length (population s) + nat (makeChildN s)"
proof -
  show a: "1 \<le> makeChildN s"
    using assms makeChildren_none[of s mk] by (cases "makeChildN s \<le> 0") auto
  show "2 \<le> length (population s)"
    using assms a makeChildren_few[of s mk] by (cases "length (population s) < 2") auto
  from assms obtain children g j g' p where
    b: "breed mk (population s) (nat (makeChildN s)) (rngState s) (nextId s)
       = Inr (children, g, nextId s')" and
    p: "population s' = population s @ children[j := (children ! j)\<lparr>payload := p\<rparr>]"
    by (rule makeChildren_Inr)
  show "length (population s') = length (population s) + nat (makeChildN s)"
    using breed_Inr[OF b] by (simp add: p)
qed

lemma scoreEach_length: "length (fst (scoreEach sc ms)) = length ms"
  by (induction ms) (auto split: prod.splits)

lemma scoreModelsInPop_fields:
  "keepTopN (scoreModelsInPop sc s) = keepTopN s" "keepBtmN (scoreModelsInPop sc s) = keepBtmN s"
  "makeChildN (scoreModelsInPop sc s) = makeChildN s" "popSize (scoreModelsInPop sc s) = popSize s"
  "keepGraveyard (scoreModelsInPop sc s) = keepGraveyard s"
  "graveyard (scoreModelsInPop sc s) = graveyard s" "bestModel (scoreModelsInPop sc s) = bestModel s"
  "nextId (scoreModelsInPop sc s) = nextId s" "rngState (scoreModelsInPop sc s) = rngState s"
  "mutateN (scoreModelsInPop sc s) = mutateN s"
  by (simp_all add: scoreModelsInPop_def split: prod.splits)

lemma scoreModelsInPop_length:
  "length (population (scoreModelsInPop sc s)) = length (population s)"
  using scoreEach_length[of sc "population s"]
  by (cases "scoreEach sc (population s)") (simp add: scoreModelsInPop_def)

lemma refill_fields:
  "keepTopN (makeRemainingRandomModels mk s) = keepTopN s"
  "keepBtmN (makeRemainingRandomModels mk s) = keepBtmN s"
  "makeChildN (makeRemainingRandomModels mk s) = makeChildN s"
  "popSize (makeRemainingRandomModels mk s) = popSize s"
  "keepGraveyard (makeRemainingRandomModels mk s) = keepGraveyard s"
  "graveyard (makeRemainingRandomModels mk s) = graveyard s"
  "bestModel (makeRemainingRandomModels mk s) = bestModel s"
  "scoreCalls (makeRemainingRandomModels mk s) = scoreCalls s"
  "mutateN (makeRemainingRandomModels mk s) = mutateN s"
  by (simp_all add: makeRemainingRandomModels_def split: prod.splits)

lemma getBestModel_Inr:
  assumes "getBestModel s = Inr (b, s')"
  shows "sortPopByFitness s = Inr s'" "population s' \<noteq> []" "b = hd (population s')"
  using assms by (auto simp: getBestModel_def split: sum.splits list.splits)

lemma trackBest_Inr:
  assumes "trackBest sc (s0, it, ini) = Inr (s2, it', ini')"
  obtains best s1 where
    "getBestModel (scoreModelsInPop sc s0) = Inr (best, s1)"
    "it' = it + 1"
    "s2 = s1 \<or> s2 = s1\<lparr>bestModel := Some best\<rparr>"
    "bestModel s0 = None \<Longrightarrow> s2 = s1\<lparr>bestModel := Some best\<rparr> \<and> ini' = 0"
    "\<And>old. bestModel s0 = Some old \<Longrightarrow>
       \<exists>x y. fitness best = Some x \<and> fitness old = Some y
         \<and> (if x > y then s2 = s1\<lparr>bestModel := Some best\<rparr> \<and> ini' = 0
             else s2 = s1 \<and> ini' = ini + 1)"
proof -
  from assms obtain best s1 where g: "getBestModel (scoreModelsInPop sc s0) = Inr (best, s1)"
    by (auto simp: trackBest_def split: sum.splits)
  have bm: "bestModel s1 = bestModel s0"
    using sortPop_fields(10)[OF getBestModel_Inr(1)[OF g]] by (simp add: scoreModelsInPop_fields)
  show thesis
  proof (rule that[OF g])
    show "it' = it + 1" using assms g by (auto simp: trackBest_def split: sum.splits)
    show "s2 = s1 \<or> s2 = s1\<lparr>bestModel := Some best\<rparr>"
      using assms g by (auto simp: trackBest_def split: sum.splits if_splits)
    show "bestModel s0 = None \<Longrightarrow> s2 = s1\<lparr>bestModel := Some best\<rparr> \<and> ini' = 0"
      using assms g bm by (auto simp: trackBest_def)
    show "\<exists>x y. fitness best = Some x \<and> fitness old = Some y
         \<and> (if x > y then s2 = s1\<lparr>bestModel := Some best\<rparr> \<and> ini' = 0
             else s2 = s1 \<and> ini' = ini + 1)" if "bestModel s0 = Some old" for old
      using assms g bm that by (auto simp: trackBest_def split: option.splits if_splits)
  qed
qed

lemma trackBest_fields:
  assumes "trackBest sc (s0, it, ini) = Inr (s2, it', ini')"
  shows "keepTopN s2 = keepTopN s0" "keepBtmN s2 = keepBtmN s0" "makeChildN s2 = makeChildN s0"
    "popSize s2 = popSize s0" "keepGraveyard s2 = keepGraveyard s0" "graveyard s2 = graveyard s0"
    "nextId s2 = nextId s0" "rngState s2 = rngState s0" "mutateN s2 = mutateN s0"
    "length (population s2) = length (population s0)"
proof -
  from assms obtain best s1 where
    g: "getBestModel (scoreModelsInPop sc s0) = Inr (best, s1)" and
    d: "s2 = s1 \<or> s2 = s1\<lparr>bestModel := Some best\<rparr>"
    by (rule trackBest_Inr)
  note f = sortPop_fields[OF getBestModel_Inr(1)[OF g]] scoreModelsInPop_fields
  note l = scoreModelsInPop_length[of sc s0]
  show "keepTopN s2 = keepTopN s0" using d by (auto simp: f)
  show "keepBtmN s2 = keepBtmN s0" using d by (auto simp: f)
  show "makeChildN s2 = makeChildN s0" using d by (auto simp: f)
  show "popSize s2 = popSize s0" using d by (auto simp: f)
  show "keepGraveyard s2 = keepGraveyard s0" using d by (auto simp: f)
  show "graveyard s2 = graveyard s0" using d by (auto simp: f)
  show "nextId s2 = nextId s0" using d by (auto simp: f)
  show "rngState s2 = rngState s0" using d by (auto simp: f)
  show "mutateN s2 = mutateN s0" using d by (auto simp: f)
  show "length (population s2) = length (population s0)" using d l by (auto simp: f)
qed

lemma generation_Inr:
  assumes "generation mk sc (s0, it, ini) = Inr (s', it', ini')"
  obtains s2 s3 s4 where
    "trackBest sc (s0, it, ini) = Inr (s2, it', ini')"
    "killUnfit s2 = Inr s3"
    "makeChildren mk s3 = Inr s4"
    "s' = makeRemainingRandomModels mk s4"
  using assms by (auto simp: generation_def split: sum.splits prod.splits)

lemma makeRandomModels_props:
  "makeRandomModels mk k g n = (ms, g', n') \<Longrightarrow>
     length ms = k \<and> n' = n + k \<and> map ident ms = [n ..< n + k]
     \<and> list_all (\<lambda>c. fitness c = None) ms"
proof (induction k arbitrary: g n ms g' n')
  case 0
  then show ?case by simp
next
  case (Suc k)
  obtain p g1 where m: "makeRandomModel mk g = (p, g1)" by (cases "makeRandomModel mk g")
  obtain ms1 g2 n2 where r: "makeRandomModels mk k g1 (Suc n) = (ms1, g2, n2)"
    by (cases "makeRandomModels mk k g1 (Suc n)")
  from Suc.prems m r have e: "ms = \<lparr>ident = n, payload = p, fitness = None\<rparr> # ms1" "n' = n2"
    by auto
  have u: "[n ..< n + Suc k] = n # [Suc n ..< Suc n + k]"
    by (simp add: upt_conv_Cons del: upt_Suc)
  from Suc.IH[OF r] show ?case unfolding u by (simp add: e)
qed

lemma initializePop_Inr:
  assumes "initializePop mk s = Inr s'"
  shows "population s = []"
    "s' = s\<lparr>population := population s', rngState := rngState s', nextId := nextId s'\<rparr>"
    "length (population s') = nat (popSize s)"
    "nextId s' = nextId s + nat (popSize s)"
    "map ident (population s') = [nextId s ..< nextId s + nat (popSize s)]"
    "list_all (\<lambda>c. fitness c = None) (population s')"
proof -
  obtain ms g n where r:
    "makeRandomModels mk (nat (popSize s)) (rngState s) (nextId s) = (ms, g, n)"
    by (cases "makeRandomModels mk (nat (popSize s)) (rngState s) (nextId s)")
  from assms r have e: "s' = s\<lparr>population := ms, rngState := g, nextId := n\<rparr>"
    by (auto simp: initializePop_def split: if_splits)
  note p = makeRandomModels_props[OF r]
  show "population s = []" using assms by (auto simp: initializePop_def split: if_splits)
  show "s' = s\<lparr>population := population s', rngState := rngState s', nextId := nextId s'\<rparr>"
    by (simp add: e)
  show "length (population s') = nat (popSize s)" using p by (simp add: e)
  show "nextId s' = nextId s + nat (popSize s)" using p by (simp add: e)
  show "map ident (population s') = [nextId s ..< nextId s + nat (popSize s)]"
    using p by (simp add: e)
  show "list_all (\<lambda>c. fitness c = None) (population s')" using p by (simp add: e)
qed

lemma initializePop_fields:
  assumes "initializePop mk s = Inr s'"
  shows "keepTopN s' = keepTopN s" "keepBtmN s' = keepBtmN s" "makeChildN s' = makeChildN s"
    "popSize s' = popSize s" "keepGraveyard s' = keepGraveyard s" "graveyard s' = graveyard s"
    "scoreCalls s' = scoreCalls s" "bestModel s' = bestModel s" "mutateN s' = mutateN s"
proof -
  note r = initializePop_Inr(2)[OF assms]
  show "keepTopN s' = keepTopN s" by (subst r) simp
  show "keepBtmN s' = keepBtmN s" by (subst r) simp
  show "makeChildN s' = makeChildN s" by (subst r) simp
  show "popSize s' = popSize s" by (subst r) simp
  show "keepGraveyard s' = keepGraveyard s" by (subst r) simp
  show "graveyard s' = graveyard s" by (subst r) simp
  show "scoreCalls s' = scoreCalls s" by (subst r) simp
  show "bestModel s' = bestModel s" by (subst r) simp
  show "mutateN s' = mutateN s" by (subst r) simp
qed

lemma generation_barren:
  assumes "makeChildN s \<le> 0"
  shows "\<exists>e. generation mk sc (s, it, ini) = Inl e"
proof (cases "generation mk sc (s, it, ini)")
  case (Inl e)
  then show ?thesis by blast
next
  case (Inr st')
  obtain s' it' ini' where st': "st' = (s', it', ini')" by (cases st')
  from Inr[unfolded st'] obtain s2 s3 s4 where
    t: "trackBest sc (s, it, ini) = Inr (s2, it', ini')" and
    k: "killUnfit s2 = Inr s3" and
    c: "makeChildren mk s3 = Inr s4"
    by (rule generation_Inr)
  have "makeChildN s3 = makeChildN s"
    by (simp add: killUnfit_fields(3)[OF k] trackBest_fields(3)[OF t])
  with assms have "makeChildren mk s3 = Inl ValueError" by (simp add: makeChildren_none)
  with c show ?thesis by simp
qed

lemma generations_fail:
  assumes "\<exists>e. generation mk sc st = Inl e"
  shows "\<exists>e. generations mk sc (Suc n) st = Inl e"
proof (induction n)
  case 0
  from assms show ?case by auto
next
  case (Suc n)
  then obtain e where "generations mk sc (Suc n) st = Inl e" by blast
  then show ?case by (simp del: generations.simps(2) add: generations.simps(2)[of mk sc "Suc n"])
qed

lemma stopCondOf_total: "\<exists>b. stopCondOf i j mi mini = Inr b"
  by (simp add: stopCondOf_def)


text \<open>
  C9: when \<open>makeChildN\<close> is zero (or negative: \<open>makeChildFrac * popSize < 1\<close>), the loop of
  \<open>_makeChildren\<close> makes no child, the draw of the child to mutate is from an empty batch and
  raises \<open>ValueError\<close>; so every generation raises, at breeding if not before, and \<open>evolve\<close>
  either raises or returns without having run a generation.
\<close>

theorem makeChildren_none_raises:
  assumes "makeChildN self \<le> 0"
  shows "breed mk (population self) (nat (makeChildN self)) (rngState self) (nextId self)
           = Inr ([], rngState self, nextId self)
   \<and> choice1 ([] :: 'p candidate list) (rngState self) = Inl ValueError
   \<and> makeChildren mk self = Inl ValueError
   \<and> (\<exists>e. generation mk sc (self, iters, itersNoImprov) = Inl e)
   \<and> (\<exists>e. generations mk sc (Suc n) (self, iters, itersNoImprov) = Inl e)
   \<and> ((\<exists>e. evolve mk sc maxIters maxItersNoImprov self = Some (Inl e))
        \<or> (\<exists>self'. evolve mk sc maxIters maxItersNoImprov self = Some (Inr (self', 0, 0))))"
proof -
  have b: "breed mk (population self) (nat (makeChildN self)) (rngState self) (nextId self)
           = Inr ([], rngState self, nextId self)" using assms by simp
  have c: "choice1 ([] :: 'p candidate list) (rngState self) = Inl ValueError"
    by (simp add: choice1_def)
  have m: "makeChildren mk self = Inl ValueError" using assms by (rule makeChildren_none)
  have g: "\<exists>e. generation mk sc (self, iters, itersNoImprov) = Inl e"
    using assms by (rule generation_barren)
  have gs: "\<exists>e. generations mk sc (Suc n) (self, iters, itersNoImprov) = Inl e"
    using g by (rule generations_fail)
  have ev: "(\<exists>e. evolve mk sc maxIters maxItersNoImprov self = Some (Inl e))
        \<or> (\<exists>self'. evolve mk sc maxIters maxItersNoImprov self = Some (Inr (self', 0, 0)))"
  proof (cases "maxIters \<noteq> None \<or> maxItersNoImprov \<noteq> None")
    case False
    then show ?thesis by (simp add: evolve_def)
  next
    case True
    show ?thesis
    proof (cases "if length (population self) = 0 then initializePop mk self else Inr self")
      case (Inl e)
      with True show ?thesis by (simp add: evolve_def)
    next
      case (Inr s1)
      have mc: "makeChildN s1 \<le> 0"
        using Inr assms initializePop_fields(3)[of mk self s1] by (auto split: if_splits)
      obtain stop where st: "stopCondOf 0 0 maxIters maxItersNoImprov = Inr stop"
        using stopCondOf_total by blast
      have e: "evolve mk sc maxIters maxItersNoImprov self = evolveLoop mk sc stop (s1, 0, 0)"
        using True Inr st by (simp add: evolve_def)
      show ?thesis
      proof (cases stop)
        case True
        then show ?thesis by (subst e, subst evolveLoop.simps) simp
      next
        case False
        from generation_barren[OF mc, of mk sc 0 0] obtain er where
          "generation mk sc (s1, 0, 0) = Inl er" by blast
        with False show ?thesis by (subst e, subst evolveLoop.simps) simp
      qed
    qed
  qed
  from b c m g gs ev show ?thesis by blast
qed


theorem makeChildren_none_raises_witness:
  "makeChildN exBarren \<le> 0
   \<and> breed exMaker (population exBarren) (nat (makeChildN exBarren)) (rngState exBarren)
         (nextId exBarren) = Inr ([], rngState exBarren, nextId exBarren)
   \<and> choice1 ([] :: nat candidate list) (rngState exBarren) = Inl ValueError
   \<and> makeChildren exMaker exBarren = Inl ValueError
   \<and> (\<exists>e. generation exMaker exScorer (exBarren, 0, 0) = Inl e)
   \<and> (\<exists>e. generations exMaker exScorer (Suc 0) (exBarren, 0, 0) = Inl e)
   \<and> ((\<exists>e. evolve exMaker exScorer (Some 5) None exBarren = Some (Inl e))
        \<or> (\<exists>self'. evolve exMaker exScorer (Some 5) None exBarren = Some (Inr (self', 0, 0))))"
proof -
  have h: "makeChildN exBarren \<le> 0" by code_simp
  from makeChildren_none_raises[OF h, of exMaker exScorer 0 0 0 "Some 5" None] h
  show ?thesis by blast
qed

text \<open>
  C10, as the code has it: after a culling step that completes, with at least one child to
  make, the population has \<open>max(keepTopN, 0) + keepBtmN\<close> members. If that is less than two
  (in particular if \<open>keepTopN\<close> is not negative and \<open>keepTopN + keepBtmN < 2\<close>), the first
  draw of two parents raises \<open>ValueError\<close> and so does \<open>_makeChildren\<close>. If
  \<open>keepTopN + keepBtmN\<close> is at least two, or only \<open>max(keepTopN, 0) + keepBtmN\<close> is, no draw
  of two parents raises, whatever the random stream, and \<open>_makeChildren\<close> completes.
\<close>

theorem parents_need_two:
  assumes "killUnfit self0 = Inr self" and "1 \<le> makeChildN self0"
  shows "int (length (population self)) = max 0 (keepTopN self0) + keepBtmN self0
   \<and> (max 0 (keepTopN self0) + keepBtmN self0 < 2 \<longrightarrow>
         choice (population self) 2 (rngState self) = Inl ValueError
         \<and> makeChildren mk self = Inl ValueError)
   \<and> (0 \<le> keepTopN self0 \<and> keepTopN self0 + keepBtmN self0 < 2 \<longrightarrow>
         choice (population self) 2 (rngState self) = Inl ValueError
         \<and> makeChildren mk self = Inl ValueError)
   \<and> (2 \<le> keepTopN self0 + keepBtmN self0 \<longrightarrow>
         (\<forall>g. \<exists>r. choice (population self) 2 g = Inr r)
         \<and> (\<exists>self'. makeChildren mk self = Inr self'))
   \<and> (2 \<le> max 0 (keepTopN self0) + keepBtmN self0 \<longrightarrow>
         (\<forall>g. \<exists>r. choice (population self) 2 g = Inr r)
         \<and> (\<exists>self'. makeChildren mk self = Inr self'))"
proof -
  from assms(1) obtain s btm g where
    s: "sortPopByFitness self0 = Inr s" and b: "btmKeepInds s = Inr (btm, g)"
    by (rule killUnfit_Inr)
  have nb: "0 \<le> keepBtmN self0" using btmKeepInds_Inr(1)[OF b] by (simp add: sortPop_fields[OF s])
  have len: "int (length (population self)) = max 0 (keepTopN self0) + keepBtmN self0"
    using killUnfit_length[OF assms(1)] nb by simp
  have mc: "1 \<le> makeChildN self" using assms(2) by (simp add: killUnfit_fields[OF assms(1)])
  have few: "choice (population self) 2 (rngState self) = Inl ValueError
         \<and> makeChildren mk self = Inl ValueError"
    if "max 0 (keepTopN self0) + keepBtmN self0 < 2"
  proof -
    from that len have l: "length (population self) < 2" by simp
    show ?thesis using choice_two_fail[OF l] makeChildren_few[OF mc l] by simp
  qed
  have enough: "(\<forall>g. \<exists>r. choice (population self) 2 g = Inr r)
         \<and> (\<exists>self'. makeChildren mk self = Inr self')"
    if "2 \<le> max 0 (keepTopN self0) + keepBtmN self0"
  proof -
    from that len have l: "2 \<le> length (population self)" by simp
    have a: "\<forall>g. \<exists>r. choice (population self) 2 g = Inr r"
    proof
      fix g
      from choice_two_ok[OF l, of g] obtain ps g' where
        "choice (population self) 2 g = Inr (ps, g')" by (elim exE)
      then show "\<exists>r. choice (population self) 2 g = Inr r" by (intro exI)
    qed
    from a makeChildren_ok[OF mc l, of mk] show ?thesis by (intro conjI)
  qed
  have c1: "max 0 (keepTopN self0) + keepBtmN self0 < 2 \<longrightarrow>
         choice (population self) 2 (rngState self) = Inl ValueError
         \<and> makeChildren mk self = Inl ValueError"
    using few by (intro impI)
  have c2: "0 \<le> keepTopN self0 \<and> keepTopN self0 + keepBtmN self0 < 2 \<longrightarrow>
         choice (population self) 2 (rngState self) = Inl ValueError
         \<and> makeChildren mk self = Inl ValueError"
  proof
    assume "0 \<le> keepTopN self0 \<and> keepTopN self0 + keepBtmN self0 < 2"
    then have "max 0 (keepTopN self0) + keepBtmN self0 < 2" by simp
    then show "choice (population self) 2 (rngState self) = Inl ValueError
         \<and> makeChildren mk self = Inl ValueError" by (rule few)
  qed
  have c3: "2 \<le> keepTopN self0 + keepBtmN self0 \<longrightarrow>
         (\<forall>g. \<exists>r. choice (population self) 2 g = Inr r)
         \<and> (\<exists>self'. makeChildren mk self = Inr self')"
  proof
    assume "2 \<le> keepTopN self0 + keepBtmN self0"
    then have "2 \<le> max 0 (keepTopN self0) + keepBtmN self0" by simp
    then show "(\<forall>g. \<exists>r. choice (population self) 2 g = Inr r)
         \<and> (\<exists>self'. makeChildren mk self = Inr self')" by (rule enough)
  qed
  have c4: "2 \<le> max 0 (keepTopN self0) + keepBtmN self0 \<longrightarrow>
         (\<forall>g. \<exists>r. choice (population self) 2 g = Inr r)
         \<and> (\<exists>self'. makeChildren mk self = Inr self')"
    using enough by (intro impI)
  from len c1 c2 c3 c4 show ?thesis by (intro conjI)
qed

text \<open>
  Both branches on the example: one top and one bottom survivor breed; a lone survivor makes
  the draw raise; and the two survivors of the object with \<open>keepTopN = -1\<close> breed.
\<close>

theorem parents_need_two_witness:
  "killUnfit exRanked = Inr exCulled \<and> 1 \<le> makeChildN exRanked
   \<and> 2 \<le> keepTopN exRanked + keepBtmN exRanked
   \<and> int (length (population exCulled)) = max 0 (keepTopN exRanked) + keepBtmN exRanked
   \<and> (\<exists>r. choice (population exCulled) 2 (rngState exCulled) = Inr r)
   \<and> (\<exists>self'. makeChildren exMaker exCulled = Inr self')
   \<and> killUnfit exLone = Inr exLoneCulled \<and> 1 \<le> makeChildN exLone
   \<and> 0 \<le> keepTopN exLone \<and> keepTopN exLone + keepBtmN exLone < 2
   \<and> max 0 (keepTopN exLone) + keepBtmN exLone < 2
   \<and> choice (population exLoneCulled) 2 (rngState exLoneCulled) = Inl ValueError
   \<and> makeChildren exMaker exLoneCulled = Inl ValueError
   \<and> killUnfit exNegRanked = Inr exNegCulled \<and> 1 \<le> makeChildN exNegRanked
   \<and> 2 \<le> max 0 (keepTopN exNegRanked) + keepBtmN exNegRanked
   \<and> (\<exists>self'. makeChildren exMaker exNegCulled = Inr self')"
proof -
  have a1: "killUnfit exRanked = Inr exCulled" by code_simp
  have a3: "1 \<le> makeChildN exRanked" by code_simp
  have a4: "2 \<le> keepTopN exRanked + keepBtmN exRanked" by code_simp
  have b1: "killUnfit exLone = Inr exLoneCulled" by code_simp
  have b2: "0 \<le> keepTopN exLone" by code_simp
  have b3: "1 \<le> makeChildN exLone" by code_simp
  have b4: "keepTopN exLone + keepBtmN exLone < 2" by code_simp
  have b5: "max 0 (keepTopN exLone) + keepBtmN exLone < 2" by code_simp
  have n1: "killUnfit exNegRanked = Inr exNegCulled" by code_simp
  have n3: "1 \<le> makeChildN exNegRanked" by code_simp
  have n4: "2 \<le> max 0 (keepTopN exNegRanked) + keepBtmN exNegRanked" by code_simp
  note A = parents_need_two[OF a1 a3, of exMaker]
  from A have al: "int (length (population exCulled))
      = max 0 (keepTopN exRanked) + keepBtmN exRanked" by (elim conjE)
  from A have "2 \<le> keepTopN exRanked + keepBtmN exRanked \<longrightarrow>
         (\<forall>g. \<exists>r. choice (population exCulled) 2 g = Inr r)
         \<and> (\<exists>self'. makeChildren exMaker exCulled = Inr self')" by (elim conjE)
  with a4 have ac: "(\<forall>g. \<exists>r. choice (population exCulled) 2 g = Inr r)
         \<and> (\<exists>self'. makeChildren exMaker exCulled = Inr self')" by (elim impE)
  from ac have ac1: "\<exists>r. choice (population exCulled) 2 (rngState exCulled) = Inr r"
    by (elim conjE allE)
  from ac have ac2: "\<exists>self'. makeChildren exMaker exCulled = Inr self'" by (elim conjE)
  note B = parents_need_two[OF b1 b3, of exMaker]
  from B have "0 \<le> keepTopN exLone \<and> keepTopN exLone + keepBtmN exLone < 2 \<longrightarrow>
         choice (population exLoneCulled) 2 (rngState exLoneCulled) = Inl ValueError
         \<and> makeChildren exMaker exLoneCulled = Inl ValueError" by (elim conjE)
  with b2 b4 have bc: "choice (population exLoneCulled) 2 (rngState exLoneCulled) = Inl ValueError
         \<and> makeChildren exMaker exLoneCulled = Inl ValueError" by simp
  from bc have bc1: "choice (population exLoneCulled) 2 (rngState exLoneCulled) = Inl ValueError"
    by (elim conjE)
  from bc have bc2: "makeChildren exMaker exLoneCulled = Inl ValueError" by (elim conjE)
  note N = parents_need_two[OF n1 n3, of exMaker]
  from N have "2 \<le> max 0 (keepTopN exNegRanked) + keepBtmN exNegRanked \<longrightarrow>
         (\<forall>g. \<exists>r. choice (population exNegCulled) 2 g = Inr r)
         \<and> (\<exists>self'. makeChildren exMaker exNegCulled = Inr self')" by (elim conjE)
  with n4 have "(\<forall>g. \<exists>r. choice (population exNegCulled) 2 g = Inr r)
         \<and> (\<exists>self'. makeChildren exMaker exNegCulled = Inr self')" by (elim impE)
  then have nc: "\<exists>self'. makeChildren exMaker exNegCulled = Inr self'" by (elim conjE)
  from a1 a3 a4 al ac1 ac2 b1 b3 b2 b4 b5 bc1 bc2 n1 n3 n4 nc show ?thesis by (intro conjI)
qed

text \<open>
  Against C10 as stated. The object built with \<open>keepTopFrac = -0.25\<close>,
  \<open>keepBtmFrac = 0.5\<close> and \<open>makeChildFrac = 0.25\<close> has \<open>makeChildN = 1\<close> and
  \<open>keepTopN + keepBtmN = 1\<close>, yet its culling leaves two candidates, the draw of two parents
  succeeds and the whole generation completes.
\<close>

theorem parents_need_two_counterexample:
  "(GeneticAlgorithm_init 4 (Fin (- 1/4)) (Fin (1/2)) (Fin (1/4)) (Fin (1/2)) True None exSeed
        [3, 1, 4, 1, 5, 9, 2, 6, 5, 3, 5, 8] :: error + nat ga) = Inr exNeg
   \<and> initializePop exMaker exNeg = Inr exNegInitial
   \<and> 1 \<le> makeChildN exNegRanked
   \<and> keepTopN exNegRanked + keepBtmN exNegRanked < 2
   \<and> killUnfit exNegRanked = Inr exNegCulled
   \<and> length (population exNegCulled) = 2
   \<and> choice (population exNegCulled) 2 (rngState exNegCulled)
        = Inr ([cand 0 3 (Some 3), cand 2 4 (Some 4)], [5, 3, 5, 8])
   \<and> makeChildren exMaker exNegCulled = Inr exNegBred
   \<and> generation exMaker exScorer (exNegInitial, 0, 0) = Inr (exNegRefilled, 1, 0)"
  by code_simp


text \<open>
  C6: a breeding phase that completes has made \<open>makeChildN\<close> children, has drawn one position
  \<open>j\<close> among them (any position can be drawn), has mutated the child at that position and no
  other, and has appended all children to the population; the result does not depend on
  \<open>mutateN\<close> or \<open>mutateFrac\<close>.
\<close>

theorem makeChildren_one_mutation:
  assumes "makeChildren mk self = Inr self'"
  shows "\<exists>children g j g' p.
     breed mk (population self) (nat (makeChildN self)) (rngState self) (nextId self)
       = Inr (children, g, nextId self')
     \<and> int (length children) = makeChildN self
     \<and> choice1 children g = Inr (j, g') \<and> j < length children
     \<and> (\<forall>i < length children. \<forall>g0. choice1 children (i # g0) = Inr (i, g0))
     \<and> mutateModel mk (children ! j) g' = (p, rngState self')
     \<and> population self' = population self @ children[j := (children ! j)\<lparr>payload := p\<rparr>]
     \<and> (\<forall>i < length children. i \<noteq> j \<longrightarrow>
           population self' ! (length (population self) + i) = children ! i)
     \<and> population self' ! (length (population self) + j) = (children ! j)\<lparr>payload := p\<rparr>
     \<and> (\<forall>mn mf. makeChildren mk (self\<lparr>mutateN := mn, mutateFrac := mf\<rparr>)
           = Inr (self'\<lparr>mutateN := mn, mutateFrac := mf\<rparr>))"
proof -
  from assms obtain children g j g' p where
    b: "breed mk (population self) (nat (makeChildN self)) (rngState self) (nextId self)
       = Inr (children, g, nextId self')" and
    c: "choice1 children g = Inr (j, g')" and
    m: "mutateModel mk (children ! j) g' = (p, rngState self')" and
    pop: "population self' = population self @ children[j := (children ! j)\<lparr>payload := p\<rparr>]" and
    r: "self' = self\<lparr>population := population self', rngState := rngState self',
          nextId := nextId self'\<rparr>"
    by (rule makeChildren_Inr)
  have l: "int (length children) = makeChildN self"
    using breed_Inr[OF b] makeChildren_length(1)[OF assms] by simp
  note j = choice1_Inr[OF c]
  have any: "\<forall>i < length children. \<forall>g0. choice1 children (i # g0) = Inr (i, g0)"
    by (simp add: choice1_any)
  have others: "\<forall>i < length children. i \<noteq> j \<longrightarrow>
           population self' ! (length (population self) + i) = children ! i"
    by (simp add: pop nth_append)
  have chosen: "population self' ! (length (population self) + j) = (children ! j)\<lparr>payload := p\<rparr>"
    using j by (simp add: pop nth_append)
  have indep: "\<forall>mn mf. makeChildren mk (self\<lparr>mutateN := mn, mutateFrac := mf\<rparr>)
           = Inr (self'\<lparr>mutateN := mn, mutateFrac := mf\<rparr>)"
  proof (intro allI)
    fix mn mf
    show "makeChildren mk (self\<lparr>mutateN := mn, mutateFrac := mf\<rparr>)
           = Inr (self'\<lparr>mutateN := mn, mutateFrac := mf\<rparr>)"
    proof -
      have e: "self'\<lparr>mutateN := mn, mutateFrac := mf\<rparr>
          = self\<lparr>population := population self @ children[j := (children ! j)\<lparr>payload := p\<rparr>],
                 rngState := rngState self', nextId := nextId self',
                 mutateN := mn, mutateFrac := mf\<rparr>"
        by (subst r) (simp add: pop)
      show ?thesis unfolding e by (simp add: makeChildren_def b c m)
    qed
  qed
  from b l c j any m pop others chosen indep show ?thesis by blast
qed

text \<open>
  A breeding phase of three children, in an object built with \<open>makeChildFrac = 0.375\<close> and
  population size eight: the second child is drawn and mutated (its payload goes from \<open>7\<close>
  to \<open>8\<close>), the first and the third are appended as they were made, each of the three
  positions would be drawn on some random stream, and other values of \<open>mutateN\<close> and
  \<open>mutateFrac\<close> give the same population.
\<close>

theorem makeChildren_one_mutation_witness:
  "(GeneticAlgorithm_init 8 (Fin (1/4)) (Fin (1/4)) (Fin (3/8)) (Fin (1/2)) False None exSeed []
      :: error + nat ga)
     = Inr (exBatch\<lparr>population := [], bestModel := None, rngState := [], nextId := 0,
                     scoreCalls := []\<rparr>)
   \<and> makeChildN exBatch = 3
   \<and> makeChildren exMaker exBatch = Inr exBatchBred
   \<and> (\<exists>children g j g' p.
     breed exMaker (population exBatch) (nat (makeChildN exBatch)) (rngState exBatch)
         (nextId exBatch) = Inr (children, g, nextId exBatchBred)
     \<and> children = [cand 8 13 None, cand 9 7 None, cand 10 4 None]
     \<and> int (length children) = makeChildN exBatch \<and> length children = 3
     \<and> choice1 children g = Inr (j, g') \<and> j = 1 \<and> j < length children
     \<and> choice1 children (0 # g') = Inr (0, g')
     \<and> choice1 children (1 # g') = Inr (1, g')
     \<and> choice1 children (2 # g') = Inr (2, g')
     \<and> mutateModel exMaker (children ! j) g' = (p, rngState exBatchBred) \<and> p = 8
     \<and> population exBatchBred = population exBatch @ children[j := (children ! j)\<lparr>payload := p\<rparr>]
     \<and> population exBatchBred ! (length (population exBatch) + 0) = children ! 0
     \<and> population exBatchBred ! (length (population exBatch) + 2) = children ! 2
     \<and> population exBatchBred ! (length (population exBatch) + j) = (children ! j)\<lparr>payload := p\<rparr>)
   \<and> population exBatchBred
        = population exBatch @ [cand 8 13 None, cand 9 8 None, cand 10 4 None]
   \<and> makeChildren exMaker (exBatch\<lparr>mutateN := 0, mutateFrac := Fin 0\<rparr>)
        = Inr (exBatchBred\<lparr>mutateN := 0, mutateFrac := Fin 0\<rparr>)
   \<and> makeChildren exMaker (exBatch\<lparr>mutateN := 8, mutateFrac := Fin 1\<rparr>)
        = Inr (exBatchBred\<lparr>mutateN := 8, mutateFrac := Fin 1\<rparr>)"
proof -
  have e0: "(GeneticAlgorithm_init 8 (Fin (1/4)) (Fin (1/4)) (Fin (3/8)) (Fin (1/2)) False None
      exSeed [] :: error + nat ga)
     = Inr (exBatch\<lparr>population := [], bestModel := None, rngState := [], nextId := 0,
                     scoreCalls := []\<rparr>)" by code_simp
  have m3: "makeChildN exBatch = 3" by code_simp
  have h: "makeChildren exMaker exBatch = Inr exBatchBred" by code_simp
  have e1: "breed exMaker (population exBatch) (nat (makeChildN exBatch)) (rngState exBatch)
         (nextId exBatch) = Inr ([cand 8 13 None, cand 9 7 None, cand 10 4 None], [1, 7], 11)"
    by code_simp
  have e2: "choice1 [cand 8 13 None, cand 9 7 None, cand 10 4 None] [1, 7] = Inr (1, [7])"
    by code_simp
  have e3: "mutateModel exMaker ([cand 8 13 None, cand 9 7 None, cand 10 4 None] ! 1) [7]
      = (8, [7])" by code_simp
  have e4: "population exBatchBred
        = population exBatch @ [cand 8 13 None, cand 9 8 None, cand 10 4 None]" by code_simp
  from makeChildren_one_mutation[OF h] obtain children g j g' p where
    tc: "breed exMaker (population exBatch) (nat (makeChildN exBatch)) (rngState exBatch)
         (nextId exBatch) = Inr (children, g, nextId exBatchBred)
     \<and> int (length children) = makeChildN exBatch
     \<and> choice1 children g = Inr (j, g') \<and> j < length children
     \<and> (\<forall>i < length children. \<forall>g0. choice1 children (i # g0) = Inr (i, g0))
     \<and> mutateModel exMaker (children ! j) g' = (p, rngState exBatchBred)
     \<and> population exBatchBred = population exBatch @ children[j := (children ! j)\<lparr>payload := p\<rparr>]
     \<and> (\<forall>i < length children. i \<noteq> j \<longrightarrow>
           population exBatchBred ! (length (population exBatch) + i) = children ! i)
     \<and> population exBatchBred ! (length (population exBatch) + j) = (children ! j)\<lparr>payload := p\<rparr>
     \<and> (\<forall>mn mf. makeChildren exMaker (exBatch\<lparr>mutateN := mn, mutateFrac := mf\<rparr>)
           = Inr (exBatchBred\<lparr>mutateN := mn, mutateFrac := mf\<rparr>))"
    by (elim exE)
  from tc have c1: "breed exMaker (population exBatch) (nat (makeChildN exBatch))
         (rngState exBatch) (nextId exBatch) = Inr (children, g, nextId exBatchBred)"
    by (elim conjE)
  from tc have c2: "int (length children) = makeChildN exBatch" by (elim conjE)
  from tc have c3: "choice1 children g = Inr (j, g')" by (elim conjE)
  from tc have c4: "j < length children" by (elim conjE)
  from tc have c5: "\<forall>i < length children. \<forall>g0. choice1 children (i # g0) = Inr (i, g0)"
    by (elim conjE)
  from tc have c6: "mutateModel exMaker (children ! j) g' = (p, rngState exBatchBred)"
    by (elim conjE)
  from tc have c7: "population exBatchBred
      = population exBatch @ children[j := (children ! j)\<lparr>payload := p\<rparr>]" by (elim conjE)
  from tc have c8: "\<forall>i < length children. i \<noteq> j \<longrightarrow>
           population exBatchBred ! (length (population exBatch) + i) = children ! i"
    by (elim conjE)
  from tc have c9: "population exBatchBred ! (length (population exBatch) + j)
      = (children ! j)\<lparr>payload := p\<rparr>" by (elim conjE)
  from tc have c10: "\<forall>mn mf. makeChildren exMaker (exBatch\<lparr>mutateN := mn, mutateFrac := mf\<rparr>)
           = Inr (exBatchBred\<lparr>mutateN := mn, mutateFrac := mf\<rparr>)" by (elim conjE)
  from c1 e1 have ch: "children = [cand 8 13 None, cand 9 7 None, cand 10 4 None]"
    and g: "g = [1, 7]" by simp_all
  have l3: "length children = 3" by (simp add: ch)
  from c3 e2 have j: "j = 1" and g': "g' = [7]" by (simp_all add: ch g)
  from c6 e3 have p: "p = 8" by (simp add: ch j g')
  have a0: "choice1 children (0 # g') = Inr (0, g')" using c5 l3 by simp
  have a1: "choice1 children (1 # g') = Inr (1, g')" using c5 l3 by simp
  have a2: "choice1 children (2 # g') = Inr (2, g')" using c5 l3 by simp
  have o0: "population exBatchBred ! (length (population exBatch) + 0) = children ! 0"
    using c8[rule_format, of 0] l3 j by simp
  have o2: "population exBatchBred ! (length (population exBatch) + 2) = children ! 2"
    using c8[rule_format, of 2] l3 j by simp
  have i1: "makeChildren exMaker (exBatch\<lparr>mutateN := 0, mutateFrac := Fin 0\<rparr>)
        = Inr (exBatchBred\<lparr>mutateN := 0, mutateFrac := Fin 0\<rparr>)"
    using c10 by (elim allE)
  have i2: "makeChildren exMaker (exBatch\<lparr>mutateN := 8, mutateFrac := Fin 1\<rparr>)
        = Inr (exBatchBred\<lparr>mutateN := 8, mutateFrac := Fin 1\<rparr>)"
    using c10 by (elim allE)
  have "breed exMaker (population exBatch) (nat (makeChildN exBatch)) (rngState exBatch)
         (nextId exBatch) = Inr (children, g, nextId exBatchBred)
     \<and> children = [cand 8 13 None, cand 9 7 None, cand 10 4 None]
     \<and> int (length children) = makeChildN exBatch \<and> length children = 3
     \<and> choice1 children g = Inr (j, g') \<and> j = 1 \<and> j < length children
     \<and> choice1 children (0 # g') = Inr (0, g')
     \<and> choice1 children (1 # g') = Inr (1, g')
     \<and> choice1 children (2 # g') = Inr (2, g')
     \<and> mutateModel exMaker (children ! j) g' = (p, rngState exBatchBred) \<and> p = 8
     \<and> population exBatchBred = population exBatch @ children[j := (children ! j)\<lparr>payload := p\<rparr>]
     \<and> population exBatchBred ! (length (population exBatch) + 0) = children ! 0
     \<and> population exBatchBred ! (length (population exBatch) + 2) = children ! 2
     \<and> population exBatchBred ! (length (population exBatch) + j) = (children ! j)\<lparr>payload := p\<rparr>"
    using c1 ch c2 l3 c3 j c4 a0 a1 a2 c6 p c7 o0 o2 c9 by (intro conjI)
  then have ex: "\<exists>children g j g' p.
     breed exMaker (population exBatch) (nat (makeChildN exBatch)) (rngState exBatch)
         (nextId exBatch) = Inr (children, g, nextId exBatchBred)
     \<and> children = [cand 8 13 None, cand 9 7 None, cand 10 4 None]
     \<and> int (length children) = makeChildN exBatch \<and> length children = 3
     \<and> choice1 children g = Inr (j, g') \<and> j = 1 \<and> j < length children
     \<and> choice1 children (0 # g') = Inr (0, g')
     \<and> choice1 children (1 # g') = Inr (1, g')
     \<and> choice1 children (2 # g') = Inr (2, g')
     \<and> mutateModel exMaker (children ! j) g' = (p, rngState exBatchBred) \<and> p = 8
     \<and> population exBatchBred = population exBatch @ children[j := (children ! j)\<lparr>payload := p\<rparr>]
     \<and> population exBatchBred ! (length (population exBatch) + 0) = children ! 0
     \<and> population exBatchBred ! (length (population exBatch) + 2) = children ! 2
     \<and> population exBatchBred ! (length (population exBatch) + j) = (children ! j)\<lparr>payload := p\<rparr>"
    by (intro exI)
  from e0 m3 h ex e4 i1 i2 show ?thesis by (intro conjI)
qed

section \<open>The size of the population\<close>

lemma refill_props:
  "refill mk t pop g n = (pop', g', n') \<Longrightarrow>
     \<exists>new. pop' = pop @ new \<and> length new = nat (t - int (length pop)) \<and> n' = n + length new
       \<and> map ident new = [n ..< n + length new] \<and> list_all (\<lambda>c. fitness c = None) new"
proof (induction mk t pop g n arbitrary: pop' g' n' rule: refill.induct)
  case (1 mk t pop g n)
  show ?case
  proof (cases "int (length pop) < t")
    case False
    with "1.prems" have "pop' = pop" "n' = n" by (simp_all add: refill.simps[of mk t pop g n])
    with False show ?thesis by simp
  next
    case True
    obtain p g1 where m: "makeRandomModel mk g = (p, g1)" by (cases "makeRandomModel mk g")
    define c where "c = \<lparr>ident = n, payload = p, fitness = None\<rparr>"
    from "1.prems" True m have r: "refill mk t (pop @ [c]) g1 (Suc n) = (pop', g', n')"
      by (simp add: refill.simps[of mk t pop g n] c_def)
    from "1.IH"[OF True m[symmetric] r[unfolded c_def]] obtain new where
      n: "pop' = (pop @ [c]) @ new" "length new = nat (t - int (length (pop @ [c])))"
        "n' = Suc n + length new" "map ident new = [Suc n ..< Suc n + length new]"
        "list_all (\<lambda>c. fitness c = None) new"
      unfolding c_def by blast
    have u: "[n ..< n + Suc (length new)] = n # [Suc n ..< Suc n + length new]"
      by (simp add: upt_conv_Cons del: upt_Suc)
    have "pop' = pop @ (c # new)" using n(1) by simp
    moreover have "length (c # new) = nat (t - int (length pop))" using n(2) True by simp
    moreover have "n' = n + length (c # new)" using n(3) by simp
    moreover have "map ident (c # new) = [n ..< n + length (c # new)]"
      using n(4) u by (simp add: c_def)
    moreover have "list_all (\<lambda>c. fitness c = None) (c # new)" using n(5) by (simp add: c_def)
    ultimately show ?thesis by blast
  qed
qed

lemma makeRemainingRandomModels_props:
  obtains new where
    "population (makeRemainingRandomModels mk s) = population s @ new"
    "length new = nat (popSize s - int (length (population s)))"
    "nextId (makeRemainingRandomModels mk s) = nextId s + length new"
    "map ident new = [nextId s ..< nextId s + length new]"
    "list_all (\<lambda>c. fitness c = None) new"
proof -
  obtain pop' g' n' where
    r: "refill mk (popSize s) (population s) (rngState s) (nextId s) = (pop', g', n')"
    by (cases "refill mk (popSize s) (population s) (rngState s) (nextId s)")
  from refill_props[OF r] obtain new where
    n: "pop' = population s @ new" "length new = nat (popSize s - int (length (population s)))"
      "n' = nextId s + length new" "map ident new = [nextId s ..< nextId s + length new]"
      "list_all (\<lambda>c. fitness c = None) new"
    by blast
  have e: "makeRemainingRandomModels mk s = s\<lparr>population := pop', rngState := g', nextId := n'\<rparr>"
    by (simp add: makeRemainingRandomModels_def r del: refill.simps)
  show thesis
    by (rule that[of new]) (simp_all add: e n)
qed

lemma generation_fields:
  assumes "generation mk sc (s, it, ini) = Inr (s', it', ini')"
  shows "keepTopN s' = keepTopN s" "keepBtmN s' = keepBtmN s" "makeChildN s' = makeChildN s"
    "popSize s' = popSize s" "keepGraveyard s' = keepGraveyard s" "mutateN s' = mutateN s"
proof -
  from assms obtain s2 s3 s4 where
    t: "trackBest sc (s, it, ini) = Inr (s2, it', ini')" and
    k: "killUnfit s2 = Inr s3" and
    c: "makeChildren mk s3 = Inr s4" and
    r: "s' = makeRemainingRandomModels mk s4"
    by (rule generation_Inr)
  note f = refill_fields makeChildren_fields[OF c] killUnfit_fields[OF k] trackBest_fields[OF t]
  show "keepTopN s' = keepTopN s" by (simp add: r f)
  show "keepBtmN s' = keepBtmN s" by (simp add: r f)
  show "makeChildN s' = makeChildN s" by (simp add: r f)
  show "popSize s' = popSize s" by (simp add: r f)
  show "keepGraveyard s' = keepGraveyard s" by (simp add: r f)
  show "mutateN s' = mutateN s" by (simp add: r f)
qed

lemma generations_fields:
  "generations mk sc n (s, it, ini) = Inr (s', it', ini') \<Longrightarrow>
     keepTopN s' = keepTopN s \<and> keepBtmN s' = keepBtmN s \<and> makeChildN s' = makeChildN s
     \<and> popSize s' = popSize s \<and> keepGraveyard s' = keepGraveyard s \<and> mutateN s' = mutateN s"
proof (induction n arbitrary: s' it' ini')
  case 0
  then show ?case by simp
next
  case (Suc n)
  from Suc.prems obtain s1 it1 ini1 where
    a: "generations mk sc n (s, it, ini) = Inr (s1, it1, ini1)" and
    b: "generation mk sc (s1, it1, ini1) = Inr (s', it', ini')"
    by (auto split: sum.splits)
  from Suc.IH[OF a] generation_fields[OF b] show ?case by simp
qed

lemma generation_length:
  assumes "generation mk sc (s, it, ini) = Inr (s', it', ini')"
  shows "length (population s')
      = max (nat (popSize s)) (nat (keepTopN s) + nat (keepBtmN s) + nat (makeChildN s))"
proof -
  from assms obtain s2 s3 s4 where
    t: "trackBest sc (s, it, ini) = Inr (s2, it', ini')" and
    k: "killUnfit s2 = Inr s3" and
    c: "makeChildren mk s3 = Inr s4" and
    r: "s' = makeRemainingRandomModels mk s4"
    by (rule generation_Inr)
  note f = makeChildren_fields[OF c] killUnfit_fields[OF k] trackBest_fields[OF t]
  have l4: "length (population s4) = nat (keepTopN s) + nat (keepBtmN s) + nat (makeChildN s)"
    by (simp add: makeChildren_length(3)[OF c] killUnfit_length[OF k] f)
  obtain new where
    n: "population (makeRemainingRandomModels mk s4) = population s4 @ new"
      "length new = nat (popSize s4 - int (length (population s4)))"
    by (rule makeRemainingRandomModels_props)
  have ar: "L + nat (P - int L) = max (nat P) L" for L :: nat and P :: int
    by linarith
  have "length (population s') = length (population s4) + nat (popSize s - int (length (population s4)))"
    by (simp add: r n f)
  then show ?thesis unfolding l4[symmetric] by (simp only: ar)
qed

text \<open>
  C2, as the code has it: after every completed generation the population has
  \<open>max(popSize, max(keepTopN, 0) + keepBtmN + makeChildN)\<close> members; so it has exactly
  \<open>popSize\<close> whenever \<open>max(keepTopN, 0) + keepBtmN + makeChildN \<le> popSize\<close>, in particular
  for \<open>keepTopN + keepBtmN + makeChildN \<le> popSize\<close> with a \<open>keepTopN\<close> that is not
  negative. The refill phase, from any state \<open>s\<close>, appends \<open>popSize - size\<close> new unscored
  candidates when the size is below \<open>popSize\<close> and none when it is at or above it.
\<close>

theorem generation_restores_popSize:
  assumes "generations mk sc (Suc n) (self, iters, itersNoImprov)
             = Inr (self', iters', itersNoImprov')"
  shows "int (length (population self'))
       = max (popSize self) (max 0 (keepTopN self) + keepBtmN self + makeChildN self)
    \<and> (max 0 (keepTopN self) + keepBtmN self + makeChildN self \<le> popSize self
          \<longrightarrow> int (length (population self')) = popSize self)
    \<and> (0 \<le> keepTopN self \<and> keepTopN self + keepBtmN self + makeChildN self \<le> popSize self
          \<longrightarrow> int (length (population self')) = popSize self)
    \<and> (\<exists>new. population (makeRemainingRandomModels mk s) = population s @ new
          \<and> length new = nat (popSize s - int (length (population s)))
          \<and> list_all (\<lambda>c. fitness c = None) new)
    \<and> (popSize s \<le> int (length (population s))
          \<longrightarrow> population (makeRemainingRandomModels mk s) = population s)
    \<and> (int (length (population s)) \<le> popSize s
          \<longrightarrow> int (length (population (makeRemainingRandomModels mk s))) = popSize s)"
proof -
  from assms(1) obtain s1 it1 ini1 where
    a: "generations mk sc n (self, iters, itersNoImprov) = Inr (s1, it1, ini1)" and
    b: "generation mk sc (s1, it1, ini1) = Inr (self', iters', itersNoImprov')"
    by (auto split: sum.splits)
  note f = generations_fields[OF a]
  from b obtain s2 s3 s4 where
    t: "trackBest sc (s1, it1, ini1) = Inr (s2, iters', itersNoImprov')" and
    k: "killUnfit s2 = Inr s3" and
    c: "makeChildren mk s3 = Inr s4"
    by (rule generation_Inr)
  from k obtain ss btm g where
    ss: "sortPopByFitness s2 = Inr ss" and bt: "btmKeepInds ss = Inr (btm, g)"
    by (rule killUnfit_Inr)
  have nb: "0 \<le> keepBtmN self"
    using btmKeepInds_Inr(1)[OF bt] by (simp add: sortPop_fields[OF ss] trackBest_fields[OF t] f)
  have nc: "1 \<le> makeChildN self"
    using makeChildren_length(1)[OF c] by (simp add: killUnfit_fields[OF k] trackBest_fields[OF t] f)
  have gl: "length (population self')
      = max (nat (popSize self)) (nat (keepTopN self) + nat (keepBtmN self) + nat (makeChildN self))"
    using generation_length[OF b] by (simp add: f)
  have size: "int (length (population self'))
       = max (popSize self) (max 0 (keepTopN self) + keepBtmN self + makeChildN self)"
    unfolding gl using nb nc by linarith
  have s1: "max 0 (keepTopN self) + keepBtmN self + makeChildN self \<le> popSize self
          \<longrightarrow> int (length (population self')) = popSize self"
    using size by linarith
  have s2: "0 \<le> keepTopN self \<and> keepTopN self + keepBtmN self + makeChildN self \<le> popSize self
          \<longrightarrow> int (length (population self')) = popSize self"
    using size by linarith
  obtain new where
    n: "population (makeRemainingRandomModels mk s) = population s @ new"
      "length new = nat (popSize s - int (length (population s)))"
      "list_all (\<lambda>c. fitness c = None) new"
    by (rule makeRemainingRandomModels_props)
  have ex: "\<exists>new. population (makeRemainingRandomModels mk s) = population s @ new
          \<and> length new = nat (popSize s - int (length (population s)))
          \<and> list_all (\<lambda>c. fitness c = None) new"
    using n by (intro exI conjI)
  have none: "popSize s \<le> int (length (population s))
          \<longrightarrow> population (makeRemainingRandomModels mk s) = population s"
  proof
    assume "popSize s \<le> int (length (population s))"
    with n(2) have "length new = 0" by linarith
    with n(1) show "population (makeRemainingRandomModels mk s) = population s" by simp
  qed
  have fills: "int (length (population s)) \<le> popSize s
          \<longrightarrow> int (length (population (makeRemainingRandomModels mk s))) = popSize s"
  proof
    assume "int (length (population s)) \<le> popSize s"
    with n(2) have "int (length new) = popSize s - int (length (population s))" by linarith
    then show "int (length (population (makeRemainingRandomModels mk s))) = popSize s"
      by (simp add: n(1))
  qed
  from size s1 s2 ex none fills show ?thesis by (intro conjI)
qed

text \<open>
  The first two generations of the example leave four candidates; the refill of the first
  generation appends one candidate to three, and a refill of a population above
  \<open>popSize\<close> appends none.
\<close>

theorem generation_restores_popSize_witness:
  "generations exMaker exScorer (Suc 0) (exInitial, 0, 0) = Inr (exRefilled, 1, 0)
   \<and> 0 \<le> keepTopN exInitial
   \<and> keepTopN exInitial + keepBtmN exInitial + makeChildN exInitial \<le> popSize exInitial
   \<and> int (length (population exRefilled)) = popSize exInitial
   \<and> generations exMaker exScorer (Suc 1) (exInitial, 0, 0) = Inr (exSecond, 2, 0)
   \<and> int (length (population exSecond)) = popSize exInitial
   \<and> int (length (population exBred)) \<le> popSize exBred
   \<and> length (population exBred) = 3
   \<and> (\<exists>new. population (makeRemainingRandomModels exMaker exBred) = population exBred @ new
          \<and> length new = nat (popSize exBred - int (length (population exBred)))
          \<and> list_all (\<lambda>c. fitness c = None) new)
   \<and> int (length (population (makeRemainingRandomModels exMaker exBred))) = popSize exBred
   \<and> popSize exWideAfter \<le> int (length (population exWideAfter))
   \<and> population (makeRemainingRandomModels exMaker exWideAfter) = population exWideAfter"
proof -
  have g1: "generations exMaker exScorer (Suc 0) (exInitial, 0, 0) = Inr (exRefilled, 1, 0)"
    by code_simp
  have g2: "generations exMaker exScorer (Suc 1) (exInitial, 0, 0) = Inr (exSecond, 2, 0)"
    by code_simp
  have k: "0 \<le> keepTopN exInitial" by code_simp
  have v: "keepTopN exInitial + keepBtmN exInitial + makeChildN exInitial \<le> popSize exInitial"
    by code_simp
  have lb: "int (length (population exBred)) \<le> popSize exBred" by code_simp
  have l3: "length (population exBred) = 3" by code_simp
  have lw: "popSize exWideAfter \<le> int (length (population exWideAfter))" by code_simp
  note A = generation_restores_popSize[OF g1, of exBred]
  note B = generation_restores_popSize[OF g2, of exWideAfter]
  from A have "0 \<le> keepTopN exInitial
        \<and> keepTopN exInitial + keepBtmN exInitial + makeChildN exInitial \<le> popSize exInitial
          \<longrightarrow> int (length (population exRefilled)) = popSize exInitial" by (elim conjE)
  with k v have a1: "int (length (population exRefilled)) = popSize exInitial" by simp
  from B have "0 \<le> keepTopN exInitial
        \<and> keepTopN exInitial + keepBtmN exInitial + makeChildN exInitial \<le> popSize exInitial
          \<longrightarrow> int (length (population exSecond)) = popSize exInitial" by (elim conjE)
  with k v have b1: "int (length (population exSecond)) = popSize exInitial" by simp
  from A have a2: "\<exists>new. population (makeRemainingRandomModels exMaker exBred)
            = population exBred @ new
          \<and> length new = nat (popSize exBred - int (length (population exBred)))
          \<and> list_all (\<lambda>c. fitness c = None) new" by (elim conjE)
  from A have "int (length (population exBred)) \<le> popSize exBred
          \<longrightarrow> int (length (population (makeRemainingRandomModels exMaker exBred))) = popSize exBred"
    by (elim conjE)
  with lb have a3: "int (length (population (makeRemainingRandomModels exMaker exBred)))
      = popSize exBred" by (elim impE)
  from B have "popSize exWideAfter \<le> int (length (population exWideAfter))
          \<longrightarrow> population (makeRemainingRandomModels exMaker exWideAfter) = population exWideAfter"
    by (elim conjE)
  with lw have b2: "population (makeRemainingRandomModels exMaker exWideAfter)
      = population exWideAfter" by (elim impE)
  from g1 k v a1 g2 b1 lb l3 a2 a3 lw b2 show ?thesis by (intro conjI)
qed

text \<open>
  Against C2 as stated. The constructor accepts the fractions \<open>-1.0\<close>, \<open>1.0\<close> and \<open>1.0\<close>
  (their sum is \<open>1.0\<close>); with population size two this gives \<open>keepTopN = -2\<close>,
  \<open>keepBtmN = 2\<close> and \<open>makeChildN = 2\<close>, so \<open>keepTopN + keepBtmN + makeChildN = popSize\<close>.
  The first generation keeps both candidates and adds two children: four candidates, not two.
\<close>

theorem generation_restores_popSize_counterexample:
  "(GeneticAlgorithm_init 2 (Fin (- 1)) (Fin 1) (Fin 1) (Fin (1/2)) False None exSeed
      [3, 1, 4, 1, 5, 9, 2, 6] :: error + nat ga) = Inr exWide
   \<and> initializePop exMaker exWide = Inr exWideInitial
   \<and> keepTopN exWideInitial + keepBtmN exWideInitial + makeChildN exWideInitial
        \<le> popSize exWideInitial
   \<and> generations exMaker exScorer (Suc 0) (exWideInitial, 0, 0) = Inr (exWideAfter, 1, 0)
   \<and> popSize exWideAfter = 2
   \<and> length (population exWideAfter) = 4
   \<and> int (length (population exWideAfter)) \<noteq> popSize exWideAfter"
  by code_simp

section \<open>The remembered best model\<close>

lemma scoreEach_eq:
  "scoreEach sc ms =
     (map (\<lambda>m. if fitness m = None then m\<lparr>fitness := Some (sc m)\<rparr> else m) ms,
      map ident (filter (\<lambda>m. fitness m = None) ms))"
  by (induction ms) auto

lemma scoreModelsInPop_eq:
  "scoreModelsInPop sc s =
     s\<lparr>population := map (\<lambda>m. if fitness m = None then m\<lparr>fitness := Some (sc m)\<rparr> else m)
                        (population s),
       scoreCalls := scoreCalls s @ map ident (filter (\<lambda>m. fitness m = None) (population s))\<rparr>"
  by (simp add: scoreModelsInPop_def scoreEach_eq)

lemma scoreModelsInPop_scored:
  "m \<in> set (population (scoreModelsInPop sc s)) \<Longrightarrow> fitness m \<noteq> None"
  by (auto simp: scoreModelsInPop_eq)

lemma sorted_desc_hd:
  assumes "m \<in> set (sort_key (\<lambda>m. - fitnessKey m) xs)"
  shows "fitnessKey m \<le> fitnessKey (hd (sort_key (\<lambda>m. - fitnessKey m) xs))"
proof -
  define ys where "ys = sort_key (\<lambda>m. - fitnessKey m) xs"
  have srt: "sorted (map (\<lambda>m. - fitnessKey m) ys)" unfolding ys_def by (rule sorted_sort_key)
  from assms have "m \<in> set ys" by (simp add: ys_def)
  then obtain y rest where ys: "ys = y # rest" by (cases ys) auto
  from srt \<open>m \<in> set ys\<close> have "- fitnessKey y \<le> - fitnessKey m" by (auto simp: ys)
  then show ?thesis by (simp add: ys_def[symmetric] ys)
qed

lemma getBestModel_best:
  assumes "getBestModel (scoreModelsInPop sc s) = Inr (best, s1)"
  obtains x where "fitness best = Some x"
    "\<And>m. m \<in> set (population s1) \<Longrightarrow> \<exists>f. fitness m = Some f \<and> f \<le> x"
    "best \<in> set (population s1)"
proof -
  note g = getBestModel_Inr[OF assms]
  note f = sortPop_fields[OF g(1)]
  have mem: "best \<in> set (population s1)" using g(2,3) by simp
  have sc: "fitness m \<noteq> None" if "m \<in> set (population s1)" for m
    using that scoreModelsInPop_scored[of m sc s] by (simp add: f)
  from sc[OF mem] obtain x where x: "fitness best = Some x" by auto
  have le: "\<exists>f. fitness m = Some f \<and> f \<le> x" if "m \<in> set (population s1)" for m
  proof -
    from sc[OF that] obtain fm where fm: "fitness m = Some fm" by auto
    have "fitnessKey m \<le> fitnessKey best"
      using sorted_desc_hd[of m "population (scoreModelsInPop sc s)"] that
      by (simp add: g(3) sortPop_Inr(1)[OF g(1)])
    then show ?thesis by (simp add: fitnessKey_def fm x)
  qed
  show thesis by (rule that[OF x le mem])
qed

lemma generation_bestModel:
  assumes "generation mk sc (s, it, ini) = Inr (s', it', ini')"
    and "trackBest sc (s, it, ini) = Inr (s2, it2, ini2)"
  shows "bestModel s' = bestModel s2" "it' = it2" "ini' = ini2"
proof -
  from assms(1) obtain t2 s3 s4 where
    t: "trackBest sc (s, it, ini) = Inr (t2, it', ini')" and
    k: "killUnfit t2 = Inr s3" and
    c: "makeChildren mk s3 = Inr s4" and
    r: "s' = makeRemainingRandomModels mk s4"
    by (rule generation_Inr)
  from t assms(2) have e: "t2 = s2" "it' = it2" "ini' = ini2" by simp_all
  show "bestModel s' = bestModel s2"
    by (simp add: r refill_fields makeChildren_fields[OF c] killUnfit_fields[OF k] e)
  show "it' = it2" "ini' = ini2" by (rule e)+
qed

lemma trackBest_cases:
  assumes "trackBest sc (s0, it, ini) = Inr (s2, it', ini')"
  shows "\<exists>best s1. getBestModel (scoreModelsInPop sc s0) = Inr (best, s1)
     \<and> it' = it + 1
     \<and> (bestModel s0 = None \<longrightarrow> s2 = s1\<lparr>bestModel := Some best\<rparr> \<and> ini' = 0)
     \<and> (\<forall>old. bestModel s0 = Some old \<longrightarrow>
          (\<exists>x y. fitness best = Some x \<and> fitness old = Some y
             \<and> (if x > y then s2 = s1\<lparr>bestModel := Some best\<rparr> \<and> ini' = 0
                 else s2 = s1 \<and> ini' = ini + 1)))"
proof -
  from assms obtain best s1 where g: "getBestModel (scoreModelsInPop sc s0) = Inr (best, s1)"
    by (auto simp: trackBest_def split: sum.splits)
  have bm: "bestModel s1 = bestModel s0"
    using sortPop_fields(10)[OF getBestModel_Inr(1)[OF g]] by (simp add: scoreModelsInPop_fields)
  show ?thesis
    apply (rule exI[of _ best], rule exI[of _ s1])
    using assms g bm by (auto simp: trackBest_def split: option.splits if_splits)
qed

lemma getBestModel_best_ex:
  assumes "getBestModel (scoreModelsInPop sc s) = Inr (best, s1)"
  shows "\<exists>x. fitness best = Some x
    \<and> (\<forall>m \<in> set (population s1). \<exists>f. fitness m = Some f \<and> f \<le> x)"
proof -
  from assms show ?thesis
  proof (rule getBestModel_best)
    fix x
    assume x: "fitness best = Some x"
      and le: "\<And>m. m \<in> set (population s1) \<Longrightarrow> \<exists>f. fitness m = Some f \<and> f \<le> x"
    have "\<forall>m \<in> set (population s1). \<exists>f. fitness m = Some f \<and> f \<le> x"
    proof
      fix m assume "m \<in> set (population s1)"
      then show "\<exists>f. fitness m = Some f \<and> f \<le> x" by (rule le)
    qed
    with x show ?thesis by (intro exI[of _ x] conjI)
  qed
qed

lemma generation_step:
  assumes "generation mk sc (s1, it1, ini1) = Inr (s2, it2, ini2)"
  shows "\<exists>best ranked xb.
     getBestModel (scoreModelsInPop sc s1) = Inr (best, ranked)
     \<and> fitness best = Some xb
     \<and> (\<forall>m \<in> set (population ranked). \<exists>f. fitness m = Some f \<and> f \<le> xb)
     \<and> it2 = it1 + 1
     \<and> (bestModel s1 = None \<longrightarrow> bestModel s2 = Some best \<and> ini2 = 0)
     \<and> (\<forall>old. bestModel s1 = Some old \<longrightarrow>
           (\<exists>y. fitness old = Some y
              \<and> (if xb > y then bestModel s2 = Some best \<and> ini2 = 0
                  else bestModel s2 = Some old \<and> ini2 = ini1 + 1)))"
proof -
  from assms obtain t2 s3 s4 where
    t: "trackBest sc (s1, it1, ini1) = Inr (t2, it2, ini2)"
    by (rule generation_Inr)
  note gb = generation_bestModel[OF assms t]
  from trackBest_cases[OF t] obtain best ranked where
    tc: "getBestModel (scoreModelsInPop sc s1) = Inr (best, ranked)
     \<and> it2 = it1 + 1
     \<and> (bestModel s1 = None \<longrightarrow> t2 = ranked\<lparr>bestModel := Some best\<rparr> \<and> ini2 = 0)
     \<and> (\<forall>old. bestModel s1 = Some old \<longrightarrow>
          (\<exists>x y. fitness best = Some x \<and> fitness old = Some y
             \<and> (if x > y then t2 = ranked\<lparr>bestModel := Some best\<rparr> \<and> ini2 = 0
                 else t2 = ranked \<and> ini2 = ini1 + 1)))"
    by (elim exE)
  from tc have g: "getBestModel (scoreModelsInPop sc s1) = Inr (best, ranked)"
    by (elim conjE)
  from tc have i: "it2 = it1 + 1"
    by (elim conjE)
  from tc have n: "bestModel s1 = None \<longrightarrow> t2 = ranked\<lparr>bestModel := Some best\<rparr> \<and> ini2 = 0"
    by (elim conjE)
  from tc have o: "\<forall>old. bestModel s1 = Some old \<longrightarrow>
       (\<exists>x y. fitness best = Some x \<and> fitness old = Some y
         \<and> (if x > y then t2 = ranked\<lparr>bestModel := Some best\<rparr> \<and> ini2 = 0
             else t2 = ranked \<and> ini2 = ini1 + 1))"
    by (elim conjE)
  from getBestModel_best_ex[OF g] obtain xb where
    xle: "fitness best = Some xb
      \<and> (\<forall>m \<in> set (population ranked). \<exists>f. fitness m = Some f \<and> f \<le> xb)"
    by (elim exE)
  from xle have x: "fitness best = Some xb" by (elim conjE)
  from xle have le': "\<forall>m \<in> set (population ranked). \<exists>f. fitness m = Some f \<and> f \<le> xb"
    by (elim conjE)
  have bm: "bestModel ranked = bestModel s1"
    using sortPop_fields(10)[OF getBestModel_Inr(1)[OF g]] by (simp add: scoreModelsInPop_fields)
  have n': "bestModel s1 = None \<longrightarrow> bestModel s2 = Some best \<and> ini2 = 0"
  proof
    assume "bestModel s1 = None"
    with n have "t2 = ranked\<lparr>bestModel := Some best\<rparr>" "ini2 = 0" by simp_all
    then show "bestModel s2 = Some best \<and> ini2 = 0" by (simp add: gb(1))
  qed
  have o': "\<forall>old. bestModel s1 = Some old \<longrightarrow>
           (\<exists>y. fitness old = Some y
              \<and> (if xb > y then bestModel s2 = Some best \<and> ini2 = 0
                  else bestModel s2 = Some old \<and> ini2 = ini1 + 1))"
  proof (intro allI impI)
    fix old assume old: "bestModel s1 = Some old"
    from o have "bestModel s1 = Some old \<longrightarrow>
       (\<exists>x y. fitness best = Some x \<and> fitness old = Some y
         \<and> (if x > y then t2 = ranked\<lparr>bestModel := Some best\<rparr> \<and> ini2 = 0
             else t2 = ranked \<and> ini2 = ini1 + 1))" by (rule spec)
    with old obtain x' y where
      a: "fitness best = Some x'" and b: "fitness old = Some y" and
      c: "if x' > y then t2 = ranked\<lparr>bestModel := Some best\<rparr> \<and> ini2 = 0
             else t2 = ranked \<and> ini2 = ini1 + 1"
      by (elim impE exE conjE)
    from a x have xx: "x' = xb" by simp
    show "\<exists>y. fitness old = Some y
              \<and> (if xb > y then bestModel s2 = Some best \<and> ini2 = 0
                  else bestModel s2 = Some old \<and> ini2 = ini1 + 1)"
    proof (cases "xb > y")
      case True
      with c xx have "t2 = ranked\<lparr>bestModel := Some best\<rparr>" "ini2 = 0" by simp_all
      with True b show ?thesis by (simp add: gb(1))
    next
      case False
      with c xx have "t2 = ranked" "ini2 = ini1 + 1" by simp_all
      with False b bm old show ?thesis by (simp add: gb(1))
    qed
  qed
  show ?thesis
    apply (rule exI[of _ best], rule exI[of _ ranked], rule exI[of _ xb])
    using g x le' i n' o' by - (intro conjI; assumption)
qed

lemma generation_best_grows:
  assumes "generation mk sc (s1, it1, ini1) = Inr (s2, it2, ini2)"
  shows "\<exists>b2 x2. bestModel s2 = Some b2 \<and> fitness b2 = Some x2
     \<and> (\<forall>old y. bestModel s1 = Some old \<longrightarrow> fitness old = Some y \<longrightarrow> y \<le> x2)"
proof -
  from generation_step[OF assms] obtain best ranked xb where
    st: "getBestModel (scoreModelsInPop sc s1) = Inr (best, ranked)
     \<and> fitness best = Some xb
     \<and> (\<forall>m \<in> set (population ranked). \<exists>f. fitness m = Some f \<and> f \<le> xb)
     \<and> it2 = it1 + 1
     \<and> (bestModel s1 = None \<longrightarrow> bestModel s2 = Some best \<and> ini2 = 0)
     \<and> (\<forall>old. bestModel s1 = Some old \<longrightarrow>
           (\<exists>y. fitness old = Some y
              \<and> (if xb > y then bestModel s2 = Some best \<and> ini2 = 0
                  else bestModel s2 = Some old \<and> ini2 = ini1 + 1)))"
    by (elim exE)
  from st have x: "fitness best = Some xb"
    by (elim conjE)
  from st have n: "bestModel s1 = None \<longrightarrow> bestModel s2 = Some best \<and> ini2 = 0"
    by (elim conjE)
  from st have o: "\<forall>old. bestModel s1 = Some old \<longrightarrow>
       (\<exists>y. fitness old = Some y
         \<and> (if xb > y then bestModel s2 = Some best \<and> ini2 = 0
             else bestModel s2 = Some old \<and> ini2 = ini1 + 1))"
    by (elim conjE)
  show ?thesis
  proof (cases "bestModel s1")
    case None
    with n have "bestModel s2 = Some best" by simp
    with x None show ?thesis by simp
  next
    case (Some old)
    from o have "bestModel s1 = Some old \<longrightarrow>
       (\<exists>y. fitness old = Some y
         \<and> (if xb > y then bestModel s2 = Some best \<and> ini2 = 0
             else bestModel s2 = Some old \<and> ini2 = ini1 + 1))" by (rule spec)
    with Some obtain y where y: "fitness old = Some y" and
      c: "if xb > y then bestModel s2 = Some best \<and> ini2 = 0
             else bestModel s2 = Some old \<and> ini2 = ini1 + 1"
      by (elim impE exE conjE)
    show ?thesis
    proof (cases "xb > y")
      case True
      with c have "bestModel s2 = Some best" by simp
      with True x y Some show ?thesis by simp
    next
      case False
      with c have "bestModel s2 = Some old" by simp
      with False x y Some show ?thesis by simp
    qed
  qed
qed

lemma generations_best_grows:
  "generations mk sc k (s2, it2, ini2) = Inr (s3, it3, ini3) \<Longrightarrow>
   bestModel s2 = Some b2 \<Longrightarrow> fitness b2 = Some x2 \<Longrightarrow>
   \<exists>b3 x3. bestModel s3 = Some b3 \<and> fitness b3 = Some x3 \<and> x2 \<le> x3"
proof (induction k arbitrary: s3 it3 ini3)
  case 0
  then show ?case by simp
next
  case (Suc k)
  from Suc.prems(1) obtain s it ini where
    a: "generations mk sc k (s2, it2, ini2) = Inr (s, it, ini)" and
    b: "generation mk sc (s, it, ini) = Inr (s3, it3, ini3)"
    by (auto split: sum.splits)
  from Suc.IH[OF a Suc.prems(2,3)] obtain b x where
    x: "bestModel s = Some b" "fitness b = Some x" "x2 \<le> x" by (elim exE conjE)
  from generation_best_grows[OF b] obtain b3 x3 where
    y: "bestModel s3 = Some b3" "fitness b3 = Some x3" and
    z: "\<forall>old y. bestModel s = Some old \<longrightarrow> fitness old = Some y \<longrightarrow> y \<le> x3"
    by (elim exE conjE)
  from z x(1,2) have "x \<le> x3" by simp
  with x(3) have "x2 \<le> x3" by simp
  with y show ?case by simp
qed

text \<open>
  C4: a completed generation scores the population and takes its fittest candidate \<open>best\<close>,
  of fitness \<open>xb\<close>. If no best model was remembered, \<open>best\<close> is remembered and the
  no-improvement counter is \<open>0\<close>. If \<open>old\<close> of fitness \<open>y\<close> was remembered, it is replaced by
  \<open>best\<close> and the counter set to \<open>0\<close> when \<open>xb > y\<close>, and otherwise it stays and the counter
  goes up by one. The generation counter goes up by one. So the fitness of the remembered best
  model after the generation is at least what it was before, and after any further completed
  generations it is at least what it was after this one.
\<close>

theorem bestModel_tracking:
  assumes "generation mk sc (s1, it1, ini1) = Inr (s2, it2, ini2)"
    and "generations mk sc k (s2, it2, ini2) = Inr (s3, it3, ini3)"
  shows "\<exists>best ranked xb.
     getBestModel (scoreModelsInPop sc s1) = Inr (best, ranked)
     \<and> fitness best = Some xb
     \<and> best \<in> set (population ranked)
     \<and> set (population ranked) = set (population (scoreModelsInPop sc s1))
     \<and> (\<forall>m \<in> set (population ranked). \<exists>f. fitness m = Some f \<and> f \<le> xb)
     \<and> it2 = it1 + 1
     \<and> (bestModel s1 = None \<longrightarrow> bestModel s2 = Some best \<and> ini2 = 0)
     \<and> (\<forall>old. bestModel s1 = Some old \<longrightarrow>
           (\<exists>y. fitness old = Some y
              \<and> (if xb > y then bestModel s2 = Some best \<and> ini2 = 0
                  else bestModel s2 = Some old \<and> ini2 = ini1 + 1)))
     \<and> (\<exists>b2 x2 b3 x3. bestModel s2 = Some b2 \<and> fitness b2 = Some x2
           \<and> (\<forall>old y. bestModel s1 = Some old \<longrightarrow> fitness old = Some y \<longrightarrow> y \<le> x2)
           \<and> bestModel s3 = Some b3 \<and> fitness b3 = Some x3 \<and> x2 \<le> x3)"
proof -
  from generation_best_grows[OF assms(1)] obtain b2 x2 where
    b2: "bestModel s2 = Some b2" "fitness b2 = Some x2" and
    gr: "\<forall>old y. bestModel s1 = Some old \<longrightarrow> fitness old = Some y \<longrightarrow> y \<le> x2"
    by (elim exE conjE)
  from generations_best_grows[OF assms(2) b2] obtain b3 x3 where
    b3: "bestModel s3 = Some b3" "fitness b3 = Some x3" "x2 \<le> x3" by (elim exE conjE)
  have last: "\<exists>b2 x2 b3 x3. bestModel s2 = Some b2 \<and> fitness b2 = Some x2
           \<and> (\<forall>old y. bestModel s1 = Some old \<longrightarrow> fitness old = Some y \<longrightarrow> y \<le> x2)
           \<and> bestModel s3 = Some b3 \<and> fitness b3 = Some x3 \<and> x2 \<le> x3"
    apply (rule exI[of _ b2], rule exI[of _ x2], rule exI[of _ b3], rule exI[of _ x3])
    using b2 gr b3 by - (intro conjI; assumption)
  from generation_step[OF assms(1)] obtain best ranked xb where
    st: "getBestModel (scoreModelsInPop sc s1) = Inr (best, ranked)
     \<and> fitness best = Some xb
     \<and> (\<forall>m \<in> set (population ranked). \<exists>f. fitness m = Some f \<and> f \<le> xb)
     \<and> it2 = it1 + 1
     \<and> (bestModel s1 = None \<longrightarrow> bestModel s2 = Some best \<and> ini2 = 0)
     \<and> (\<forall>old. bestModel s1 = Some old \<longrightarrow>
           (\<exists>y. fitness old = Some y
              \<and> (if xb > y then bestModel s2 = Some best \<and> ini2 = 0
                  else bestModel s2 = Some old \<and> ini2 = ini1 + 1)))"
    by (elim exE)
  from st have g: "getBestModel (scoreModelsInPop sc s1) = Inr (best, ranked)" by (elim conjE)
  from st have x: "fitness best = Some xb" by (elim conjE)
  from st have le: "\<forall>m \<in> set (population ranked). \<exists>f. fitness m = Some f \<and> f \<le> xb"
    by (elim conjE)
  from st have i: "it2 = it1 + 1" by (elim conjE)
  from st have n: "bestModel s1 = None \<longrightarrow> bestModel s2 = Some best \<and> ini2 = 0"
    by (elim conjE)
  from st have o: "\<forall>old. bestModel s1 = Some old \<longrightarrow>
           (\<exists>y. fitness old = Some y
              \<and> (if xb > y then bestModel s2 = Some best \<and> ini2 = 0
                  else bestModel s2 = Some old \<and> ini2 = ini1 + 1))" by (elim conjE)
  have mem: "best \<in> set (population ranked)"
    using getBestModel_Inr(2,3)[OF g] by simp
  have same: "set (population ranked) = set (population (scoreModelsInPop sc s1))"
    by (rule sortPop_fields(13)[OF getBestModel_Inr(1)[OF g]])
  have "getBestModel (scoreModelsInPop sc s1) = Inr (best, ranked)
     \<and> fitness best = Some xb
     \<and> best \<in> set (population ranked)
     \<and> set (population ranked) = set (population (scoreModelsInPop sc s1))
     \<and> (\<forall>m \<in> set (population ranked). \<exists>f. fitness m = Some f \<and> f \<le> xb)
     \<and> it2 = it1 + 1
     \<and> (bestModel s1 = None \<longrightarrow> bestModel s2 = Some best \<and> ini2 = 0)
     \<and> (\<forall>old. bestModel s1 = Some old \<longrightarrow>
           (\<exists>y. fitness old = Some y
              \<and> (if xb > y then bestModel s2 = Some best \<and> ini2 = 0
                  else bestModel s2 = Some old \<and> ini2 = ini1 + 1)))
     \<and> (\<exists>b2 x2 b3 x3. bestModel s2 = Some b2 \<and> fitness b2 = Some x2
           \<and> (\<forall>old y. bestModel s1 = Some old \<longrightarrow> fitness old = Some y \<longrightarrow> y \<le> x2)
           \<and> bestModel s3 = Some b3 \<and> fitness b3 = Some x3 \<and> x2 \<le> x3)"
    using g x mem same le i n o last by (intro conjI)
  then show ?thesis by (intro exI)
qed

text \<open>
  The three generations of the run under \<open>exLoss\<close>: the first remembers its best candidate,
  the second finds no fitter one (its best is the remembered candidate itself, a tie) and
  keeps it, the third finds a fitter one and replaces it.
\<close>

theorem bestModel_tracking_witness:
  "generation exMaker exLoss (exInitial, 0, 0) = Inr (exLossFirst, 1, 0)
   \<and> generations exMaker exLoss 2 (exLossFirst, 1, 0) = Inr (exLossThird, 3, 0)
   \<and> bestModel exInitial = None
   \<and> (\<exists>best ranked xb. getBestModel (scoreModelsInPop exLoss exInitial) = Inr (best, ranked)
         \<and> fitness best = Some xb \<and> best \<in> set (population ranked)
         \<and> bestModel exLossFirst = Some best)
   \<and> (\<exists>b2 x2 b3 x3. bestModel exLossFirst = Some b2 \<and> fitness b2 = Some x2
         \<and> bestModel exLossThird = Some b3 \<and> fitness b3 = Some x3 \<and> x2 \<le> x3)
   \<and> generation exMaker exLoss (exLossFirst, 1, 0) = Inr (exLossSecond, 2, 1)
   \<and> generations exMaker exLoss 0 (exLossSecond, 2, 1) = Inr (exLossSecond, 2, 1)
   \<and> bestModel exLossFirst = Some (cand 1 1 (Some (- 1)))
   \<and> (\<exists>best ranked xb y. getBestModel (scoreModelsInPop exLoss exLossFirst) = Inr (best, ranked)
         \<and> fitness best = Some xb \<and> fitness (cand 1 1 (Some (- 1))) = Some y
         \<and> \<not> xb > y \<and> bestModel exLossSecond = Some (cand 1 1 (Some (- 1))))
   \<and> generation exMaker exLoss (exLossSecond, 2, 1) = Inr (exLossThird, 3, 0)
   \<and> generations exMaker exLoss 0 (exLossThird, 3, 0) = Inr (exLossThird, 3, 0)
   \<and> bestModel exLossSecond = Some (cand 1 1 (Some (- 1)))
   \<and> (\<exists>best ranked xb y. getBestModel (scoreModelsInPop exLoss exLossSecond) = Inr (best, ranked)
         \<and> fitness best = Some xb \<and> fitness (cand 1 1 (Some (- 1))) = Some y
         \<and> xb > y \<and> bestModel exLossThird = Some best)"
proof -
  have g1: "generation exMaker exLoss (exInitial, 0, 0) = Inr (exLossFirst, 1, 0)" by code_simp
  have g2: "generation exMaker exLoss (exLossFirst, 1, 0) = Inr (exLossSecond, 2, 1)" by code_simp
  have g3: "generation exMaker exLoss (exLossSecond, 2, 1) = Inr (exLossThird, 3, 0)" by code_simp
  have r0a: "generations exMaker exLoss 0 (exLossSecond, 2, 1) = Inr (exLossSecond, 2, 1)" by simp
  have r0b: "generations exMaker exLoss 0 (exLossThird, 3, 0) = Inr (exLossThird, 3, 0)" by simp
  have r2: "generations exMaker exLoss 2 (exLossFirst, 1, 0) = Inr (exLossThird, 3, 0)"
    using g2 g3 by (simp add: numeral_2_eq_2)
  have b0: "bestModel exInitial = None" by code_simp
  have b1: "bestModel exLossFirst = Some (cand 1 1 (Some (- 1)))" by code_simp
  have b2: "bestModel exLossSecond = Some (cand 1 1 (Some (- 1)))" by code_simp
  have w1: "(\<exists>best ranked xb. getBestModel (scoreModelsInPop exLoss exInitial) = Inr (best, ranked)
         \<and> fitness best = Some xb \<and> best \<in> set (population ranked)
         \<and> bestModel exLossFirst = Some best)
     \<and> (\<exists>b2 x2 b3 x3. bestModel exLossFirst = Some b2 \<and> fitness b2 = Some x2
         \<and> bestModel exLossThird = Some b3 \<and> fitness b3 = Some x3 \<and> x2 \<le> x3)"
  proof -
    from bestModel_tracking[OF g1 r2] obtain best ranked xb where
      tc: "getBestModel (scoreModelsInPop exLoss exInitial) = Inr (best, ranked)
       \<and> fitness best = Some xb
       \<and> best \<in> set (population ranked)
       \<and> set (population ranked) = set (population (scoreModelsInPop exLoss exInitial))
       \<and> (\<forall>m \<in> set (population ranked). \<exists>f. fitness m = Some f \<and> f \<le> xb)
       \<and> (1::int) = 0 + 1
       \<and> (bestModel exInitial = None \<longrightarrow> bestModel exLossFirst = Some best \<and> (0::int) = 0)
       \<and> (\<forall>old. bestModel exInitial = Some old \<longrightarrow>
             (\<exists>y. fitness old = Some y
                \<and> (if xb > y then bestModel exLossFirst = Some best \<and> (0::int) = 0
                    else bestModel exLossFirst = Some old \<and> (0::int) = 0 + 1)))
       \<and> (\<exists>b2 x2 b3 x3. bestModel exLossFirst = Some b2 \<and> fitness b2 = Some x2
             \<and> (\<forall>old y. bestModel exInitial = Some old \<longrightarrow> fitness old = Some y \<longrightarrow> y \<le> x2)
             \<and> bestModel exLossThird = Some b3 \<and> fitness b3 = Some x3 \<and> x2 \<le> x3)"
      by (elim exE)
    from tc have c1: "getBestModel (scoreModelsInPop exLoss exInitial) = Inr (best, ranked)"
      by (elim conjE)
    from tc have c2: "fitness best = Some xb" by (elim conjE)
    from tc have c3: "best \<in> set (population ranked)" by (elim conjE)
    from tc have "bestModel exInitial = None \<longrightarrow> bestModel exLossFirst = Some best \<and> (0::int) = 0"
      by (elim conjE)
    with b0 have c4: "bestModel exLossFirst = Some best" by simp
    from tc have "\<exists>b2 x2 b3 x3. bestModel exLossFirst = Some b2 \<and> fitness b2 = Some x2
             \<and> (\<forall>old y. bestModel exInitial = Some old \<longrightarrow> fitness old = Some y \<longrightarrow> y \<le> x2)
             \<and> bestModel exLossThird = Some b3 \<and> fitness b3 = Some x3 \<and> x2 \<le> x3"
      by (elim conjE)
    then obtain b2 x2 b3 x3 where m: "bestModel exLossFirst = Some b2" "fitness b2 = Some x2"
        "bestModel exLossThird = Some b3" "fitness b3 = Some x3" "x2 \<le> x3"
      by (elim exE conjE)
    have p1: "\<exists>best ranked xb. getBestModel (scoreModelsInPop exLoss exInitial) = Inr (best, ranked)
         \<and> fitness best = Some xb \<and> best \<in> set (population ranked)
         \<and> bestModel exLossFirst = Some best"
      using c1 c2 c3 c4 by (intro exI conjI)
    have p2: "\<exists>b2 x2 b3 x3. bestModel exLossFirst = Some b2 \<and> fitness b2 = Some x2
         \<and> bestModel exLossThird = Some b3 \<and> fitness b3 = Some x3 \<and> x2 \<le> x3"
      using m by (intro exI conjI)
    from p1 p2 show ?thesis by (intro conjI)
  qed
  have w2: "\<exists>best ranked xb y. getBestModel (scoreModelsInPop exLoss exLossFirst) = Inr (best, ranked)
         \<and> fitness best = Some xb \<and> fitness (cand 1 1 (Some (- 1))) = Some y
         \<and> \<not> xb > y \<and> bestModel exLossSecond = Some (cand 1 1 (Some (- 1)))"
  proof -
    from bestModel_tracking[OF g2 r0a] obtain best ranked xb where
      tc: "getBestModel (scoreModelsInPop exLoss exLossFirst) = Inr (best, ranked)
       \<and> fitness best = Some xb
       \<and> best \<in> set (population ranked)
       \<and> set (population ranked) = set (population (scoreModelsInPop exLoss exLossFirst))
       \<and> (\<forall>m \<in> set (population ranked). \<exists>f. fitness m = Some f \<and> f \<le> xb)
       \<and> (2::int) = 1 + 1
       \<and> (bestModel exLossFirst = None \<longrightarrow> bestModel exLossSecond = Some best \<and> (1::int) = 0)
       \<and> (\<forall>old. bestModel exLossFirst = Some old \<longrightarrow>
             (\<exists>y. fitness old = Some y
                \<and> (if xb > y then bestModel exLossSecond = Some best \<and> (1::int) = 0
                    else bestModel exLossSecond = Some old \<and> (1::int) = 0 + 1)))
       \<and> (\<exists>b2 x2 b3 x3. bestModel exLossSecond = Some b2 \<and> fitness b2 = Some x2
             \<and> (\<forall>old y. bestModel exLossFirst = Some old \<longrightarrow> fitness old = Some y \<longrightarrow> y \<le> x2)
             \<and> bestModel exLossSecond = Some b3 \<and> fitness b3 = Some x3 \<and> x2 \<le> x3)"
      by (elim exE)
    from tc have c1: "getBestModel (scoreModelsInPop exLoss exLossFirst) = Inr (best, ranked)"
      by (elim conjE)
    from tc have c2: "fitness best = Some xb" by (elim conjE)
    from tc have "\<forall>old. bestModel exLossFirst = Some old \<longrightarrow>
             (\<exists>y. fitness old = Some y
                \<and> (if xb > y then bestModel exLossSecond = Some best \<and> (1::int) = 0
                    else bestModel exLossSecond = Some old \<and> (1::int) = 0 + 1))"
      by (elim conjE)
    then have "bestModel exLossFirst = Some (cand 1 1 (Some (- 1))) \<longrightarrow>
             (\<exists>y. fitness (cand 1 1 (Some (- 1))) = Some y
                \<and> (if xb > y then bestModel exLossSecond = Some best \<and> (1::int) = 0
                    else bestModel exLossSecond = Some (cand 1 1 (Some (- 1)))
                       \<and> (1::int) = 0 + 1))"
      by (rule spec)
    with b1 obtain y where y: "fitness (cand 1 1 (Some (- 1))) = Some y" and
      c: "if xb > y then bestModel exLossSecond = Some best \<and> (1::int) = 0
                    else bestModel exLossSecond = Some (cand 1 1 (Some (- 1)))
                       \<and> (1::int) = 0 + 1"
      by (elim impE exE conjE)
    have nx: "\<not> xb > y"
    proof
      assume "xb > y"
      with c have "(1::int) = 0" by simp
      then show False by simp
    qed
    show ?thesis using c1 c2 y nx b2 by (intro exI conjI)
  qed
  have w3: "\<exists>best ranked xb y. getBestModel (scoreModelsInPop exLoss exLossSecond) = Inr (best, ranked)
         \<and> fitness best = Some xb \<and> fitness (cand 1 1 (Some (- 1))) = Some y
         \<and> xb > y \<and> bestModel exLossThird = Some best"
  proof -
    from bestModel_tracking[OF g3 r0b] obtain best ranked xb where
      tc: "getBestModel (scoreModelsInPop exLoss exLossSecond) = Inr (best, ranked)
       \<and> fitness best = Some xb
       \<and> best \<in> set (population ranked)
       \<and> set (population ranked) = set (population (scoreModelsInPop exLoss exLossSecond))
       \<and> (\<forall>m \<in> set (population ranked). \<exists>f. fitness m = Some f \<and> f \<le> xb)
       \<and> (3::int) = 2 + 1
       \<and> (bestModel exLossSecond = None \<longrightarrow> bestModel exLossThird = Some best \<and> (0::int) = 0)
       \<and> (\<forall>old. bestModel exLossSecond = Some old \<longrightarrow>
             (\<exists>y. fitness old = Some y
                \<and> (if xb > y then bestModel exLossThird = Some best \<and> (0::int) = 0
                    else bestModel exLossThird = Some old \<and> (0::int) = 1 + 1)))
       \<and> (\<exists>b2 x2 b3 x3. bestModel exLossThird = Some b2 \<and> fitness b2 = Some x2
             \<and> (\<forall>old y. bestModel exLossSecond = Some old \<longrightarrow> fitness old = Some y \<longrightarrow> y \<le> x2)
             \<and> bestModel exLossThird = Some b3 \<and> fitness b3 = Some x3 \<and> x2 \<le> x3)"
      by (elim exE)
    from tc have c1: "getBestModel (scoreModelsInPop exLoss exLossSecond) = Inr (best, ranked)"
      by (elim conjE)
    from tc have c2: "fitness best = Some xb" by (elim conjE)
    from tc have "\<forall>old. bestModel exLossSecond = Some old \<longrightarrow>
             (\<exists>y. fitness old = Some y
                \<and> (if xb > y then bestModel exLossThird = Some best \<and> (0::int) = 0
                    else bestModel exLossThird = Some old \<and> (0::int) = 1 + 1))"
      by (elim conjE)
    then have "bestModel exLossSecond = Some (cand 1 1 (Some (- 1))) \<longrightarrow>
             (\<exists>y. fitness (cand 1 1 (Some (- 1))) = Some y
                \<and> (if xb > y then bestModel exLossThird = Some best \<and> (0::int) = 0
                    else bestModel exLossThird = Some (cand 1 1 (Some (- 1)))
                       \<and> (0::int) = 1 + 1))"
      by (rule spec)
    with b2 obtain y where y: "fitness (cand 1 1 (Some (- 1))) = Some y" and
      c: "if xb > y then bestModel exLossThird = Some best \<and> (0::int) = 0
                    else bestModel exLossThird = Some (cand 1 1 (Some (- 1)))
                       \<and> (0::int) = 1 + 1"
      by (elim impE exE conjE)
    have gx: "xb > y"
    proof (rule ccontr)
      assume "\<not> xb > y"
      with c have "(0::int) = 1 + 1" by simp
      then show False by simp
    qed
    with c have bm: "bestModel exLossThird = Some best" by simp
    show ?thesis using c1 c2 y gx bm by (intro exI conjI)
  qed
  from w1 have w1a: "\<exists>best ranked xb. getBestModel (scoreModelsInPop exLoss exInitial) = Inr (best, ranked)
         \<and> fitness best = Some xb \<and> best \<in> set (population ranked)
         \<and> bestModel exLossFirst = Some best" by (elim conjE)
  from w1 have w1b: "\<exists>b2 x2 b3 x3. bestModel exLossFirst = Some b2 \<and> fitness b2 = Some x2
         \<and> bestModel exLossThird = Some b3 \<and> fitness b3 = Some x3 \<and> x2 \<le> x3" by (elim conjE)
  from g1 r2 b0 w1a w1b g2 r0a b1 w2 g3 r0b b2 w3 show ?thesis by (intro conjI)
qed


end
